theory Spec2Isabelle
  imports Complex_Main "HOL-Library.Word" "HOL-Library.Log_Nat"
begin

section \<open>OctoCanvas: a shallow embedding of the algorithmic parts\<close>

text \<open>
  The application is a client-side page that turns a GitHub profile into wallpapers,
  trading cards and README banners. The definitions below follow the TypeScript sources
  function by function and keep their names.

  Array indices and loop counters are natural numbers, the components of a
  \<open>Uint8ClampedArray\<close> are 8-bit words.
\<close>

subsection \<open>Numbers\<close>

text \<open>
  A JavaScript \<open>number\<close> is an IEEE binary64 value. A finite one is modelled as the
  real number it denotes, and every arithmetic operation rounds its exact result to the
  nearest binary64 value, a tie to the one with the even significand. \<open>NaN\<close> is
  modelled where a read of \<open>undefined\<close> can produce it, as \<open>None\<close>. Infinities
  are not modelled: \<open>rnd\<close> is the rounding of every real number whose rounding does
  not overflow, and the numbers of this program stay far below \<open>2 ^ 1024\<close>.
\<close>

type_synonym number = real

text \<open>Rounding to the nearest integer, a tie to the even one.\<close>

definition roundHalfEven :: "real \<Rightarrow> int" where
  "roundHalfEven x =
     (let f = \<lfloor>x\<rfloor> in
      if x - of_int f < 1 / 2 then f
      else if x - of_int f > 1 / 2 then f + 1
      else if even f then f else f + 1)"

text \<open>
  The binary exponent of a positive number: the \<open>e\<close> with
  \<open>2 ^ e \<le> x < 2 ^ (e + 1)\<close>, computed from the number of binary digits of an
  integer.
\<close>

definition exponentOf :: "real \<Rightarrow> int" where
  "exponentOf x =
     (if 1 \<le> x then bitlen \<lfloor>x\<rfloor> - 1
      else - bitlen (\<lceil>1 / x\<rceil> - 1))"

text \<open>
  The binary64 value nearest to a real number. The significand has 53 bits, so the
  spacing of the values around \<open>x\<close> is \<open>2 ^ (e - 52)\<close>; below the smallest normal
  exponent -1022 the spacing stays \<open>2 ^ -1074\<close>.
\<close>

definition rnd :: "real \<Rightarrow> real" where
  "rnd x =
     (if x = 0 then 0
      else
        (let e = max (exponentOf \<bar>x\<bar>) (- 1022);
             u = 2 powi (e - 52)
         in sgn x * (of_int (roundHalfEven (\<bar>x\<bar> / u)) * u)))"

text \<open>The operators \<open>+\<close>, \<open>-\<close>, \<open>*\<close> and \<open>/\<close>, and a decimal literal.\<close>

definition jsAdd :: "number \<Rightarrow> number \<Rightarrow> number" where
  "jsAdd a b = rnd (a + b)"

definition jsSub :: "number \<Rightarrow> number \<Rightarrow> number" where
  "jsSub a b = rnd (a - b)"

definition jsMul :: "number \<Rightarrow> number \<Rightarrow> number" where
  "jsMul a b = rnd (a * b)"

definition jsDiv :: "number \<Rightarrow> number \<Rightarrow> number" where
  "jsDiv a b = rnd (a / b)"

definition jsLit :: "real \<Rightarrow> number" where
  "jsLit x = rnd x"

subsection \<open>Profile data (GitHubWallpaperApp.tsx)\<close>

record ContributionDay =
  contributionCount :: number
  date :: string

record ContributionWeek =
  contributionDays :: "ContributionDay list"

record ContributionData =
  totalContributions :: number
  weeks :: "ContributionWeek list"

record GitHubUser =
  login :: string
  avatar_url :: string
  followers :: number
  public_repos :: number
  contributions :: "ContributionData option"

subsection \<open>Rarity of a trading card (DevemonCard.tsx)\<close>

text \<open>The keys of \<open>RARITY_LEVELS\<close>, in the order in which the table lists them.\<close>

datatype Rarity = common | uncommon | rare | epic | legendary | mythical

record ExtendedStats =
  totalStars :: number
  totalForks :: number

text \<open>
  \<open>user.contributions?.totalContributions || 0\<close>: a missing contribution record
  counts as zero (a total of zero is falsy and gives zero as well).
\<close>

definition totalContributionsOrZero :: "GitHubUser \<Rightarrow> number" where
  "totalContributionsOrZero user =
     (case contributions user of None \<Rightarrow> 0 | Some c \<Rightarrow> totalContributions c)"

definition powerLevel :: "GitHubUser \<Rightarrow> ExtendedStats \<Rightarrow> number" where
  "powerLevel user extendedStats =
     jsAdd (jsAdd (jsAdd (jsAdd
       (jsMul (followers user) 2)
       (jsMul (public_repos user) 1))
       (jsMul (totalContributionsOrZero user) (jsLit (1 / 10))))
       (jsMul (totalStars extendedStats) 3))
       (jsMul (totalForks extendedStats) 2)"

definition calculateRarity :: "GitHubUser \<Rightarrow> ExtendedStats \<Rightarrow> Rarity" where
  "calculateRarity user extendedStats =
     (let p = powerLevel user extendedStats in
      if p \<ge> 5000 then mythical
      else if p \<ge> 2000 then legendary
      else if p \<ge> 800 then epic
      else if p \<ge> 300 then rare
      else if p \<ge> 100 then uncommon
      else common)"

text \<open>The position of a tier in the documented order Common < ... < Mythical.\<close>

fun rarityRank :: "Rarity \<Rightarrow> nat" where
  "rarityRank common = 0"
| "rarityRank uncommon = 1"
| "rarityRank rare = 2"
| "rarityRank epic = 3"
| "rarityRank legendary = 4"
| "rarityRank mythical = 5"

subsection \<open>User name normalisation and the profile request (GitHubWallpaperApp.tsx)\<close>

text \<open>A JavaScript string is a sequence of UTF-16 code units.\<close>

type_synonym jsstring = "16 word list"

definition jsstr :: "string \<Rightarrow> jsstring" where
  "jsstr s = map of_char s"

text \<open>
  The code units that \<open>String.prototype.trim\<close> removes: the white space and line
  terminator code points of ECMAScript.
\<close>

definition isWhiteSpace :: "16 word \<Rightarrow> bool" where
  "isWhiteSpace c \<longleftrightarrow>
     c = 0x0009 \<or> c = 0x000A \<or> c = 0x000B \<or> c = 0x000C \<or> c = 0x000D \<or>
     c = 0x0020 \<or> c = 0x00A0 \<or> c = 0x1680 \<or> (0x2000 \<le> c \<and> c \<le> 0x200A) \<or>
     c = 0x2028 \<or> c = 0x2029 \<or> c = 0x202F \<or> c = 0x205F \<or> c = 0x3000 \<or>
     c = 0xFEFF"

definition trim :: "jsstring \<Rightarrow> jsstring" where
  "trim s = rev (dropWhile isWhiteSpace (rev (dropWhile isWhiteSpace s)))"

text \<open>\<open>s.replace(/^@/, "")\<close>: one \<open>@\<close> (code unit 0x40) at the very start is removed.\<close>

definition startsWithAt :: "jsstring \<Rightarrow> bool" where
  "startsWithAt s = (case s of [] \<Rightarrow> False | c # cs \<Rightarrow> c = 0x40)"

definition replaceLeadingAt :: "jsstring \<Rightarrow> jsstring" where
  "replaceLeadingAt s = (case s of [] \<Rightarrow> [] | c # cs \<Rightarrow> if c = 0x40 then cs else s)"

definition getCleanUsername :: "jsstring \<Rightarrow> jsstring" where
  "getCleanUsername username = trim (replaceLeadingAt username)"

text \<open>
  \<open>fetchGitHubUser\<close> up to its first request: an empty clean name is rejected with a
  message, any other name gives the URL of the profile request.
\<close>

definition fetchGitHubUserRequest :: "jsstring \<Rightarrow> string + jsstring" where
  "fetchGitHubUserRequest username =
     (let cleanUsername = getCleanUsername username in
      if cleanUsername = [] then Inl ''Please enter a valid GitHub username''
      else Inr (jsstr ''https://api.github.com/users/'' @ cleanUsername))"

subsection \<open>Avatar art of the README banner (ReadmeBanner.tsx)\<close>

text \<open>
  What the browser contributes to the four avatar transforms. \<open>loadImage\<close> is the
  outcome of setting \<open>img.src\<close>: \<open>None\<close> when \<open>onerror\<close> fires, the decoded
  image when \<open>onload\<close> fires. \<open>getContext2d\<close> tells whether
  \<open>canvas.getContext("2d")\<close> is non-null. \<open>drawImage img w h smoothing\<close> is the RGBA
  buffer of a \<open>w\<close> by \<open>h\<close> canvas after the image has been drawn onto it, as
  \<open>getImageData\<close> returns it, and \<open>toDataURL w h data\<close> is the PNG data URL of a canvas
  with that content.
\<close>

record 'img Browser =
  encodeURIComponent :: "string \<Rightarrow> string"
  loadImage :: "string \<Rightarrow> 'img option"
  getContext2d :: bool
  drawImage :: "'img \<Rightarrow> nat \<Rightarrow> nat \<Rightarrow> bool \<Rightarrow> 8 word list"
  toDataURL :: "nat \<Rightarrow> nat \<Rightarrow> 8 word list \<Rightarrow> string"

definition proxyUrl :: "'img Browser \<Rightarrow> string \<Rightarrow> string \<Rightarrow> string" where
  "proxyUrl env imageUrl px_size =
     ''https://images.weserv.nl/?url='' @ encodeURIComponent env imageUrl @
     ''&w='' @ px_size @ ''&h='' @ px_size @ ''&fit=cover&a=attention''"

text \<open>
  Reading a typed array: an index outside the array gives \<open>undefined\<close>, here
  \<open>None\<close>.
\<close>

definition px :: "8 word list \<Rightarrow> nat \<Rightarrow> 8 word option" where
  "px pixels i = (if i < length pixels then Some (pixels ! i) else None)"

text \<open>The luminosity \<open>0.299 * r + 0.587 * g + 0.114 * b\<close> of both transforms.\<close>

definition luminosity :: "number \<Rightarrow> number \<Rightarrow> number \<Rightarrow> number" where
  "luminosity r g b =
     jsAdd (jsAdd (jsMul (jsLit (299 / 1000)) r) (jsMul (jsLit (587 / 1000)) g))
           (jsMul (jsLit (114 / 1000)) b)"

text \<open>The same on array reads; arithmetic on \<open>undefined\<close> is \<open>NaN\<close>, here \<open>None\<close>.\<close>

definition luminosityOf ::
  "8 word option \<Rightarrow> 8 word option \<Rightarrow> 8 word option \<Rightarrow> number option" where
  "luminosityOf r g b =
     (case (r, g, b) of
        (Some rv, Some gv, Some bv) \<Rightarrow>
          Some (luminosity (of_nat (unat rv)) (of_nat (unat gv)) (of_nat (unat bv)))
      | _ \<Rightarrow> None)"

definition asciiWidth :: nat where "asciiWidth = 60"
definition asciiHeight :: nat where "asciiHeight = 40"

definition asciiChars :: "string list" where
  "asciiChars =
     [[CHR 0x20], ''.'', [CHR 0x27], [CHR 0x60], ''^'', [CHR 0x22], '','', '':'', '';'', ''I'',
      ''l'', ''!'', ''i'', ''>'', ''<'', ''~'', ''+'', ''_'', ''-'', ''?'',
      '']'', ''['', ''}'', ''{'', ''1'', '')'', ''('', ''|'', [CHR 0x5C], ''/'',
      ''t'', ''f'', ''j'', ''r'', ''x'', ''n'', ''u'', ''v'', ''c'', ''z'',
      ''X'', ''Y'', ''U'', ''J'', ''C'', ''L'', ''Q'', ''0'', ''O'', ''Z'',
      ''m'', ''w'', ''q'', ''p'', ''d'', ''b'', ''k'', ''h'', ''a'', ''o'',
      ''*'', ''#'', ''M'', ''W'', ''&'', ''8'', ''%'', ''B'', ''@'', ''$'']"

text \<open>
  \<open>asciiChars[charIndex]\<close> appended to a string: an index outside the array reads
  \<open>undefined\<close>, which is appended as the text \<open>undefined\<close>.
\<close>

definition charAt :: "string list \<Rightarrow> int \<Rightarrow> string" where
  "charAt chars i = (if 0 \<le> i \<and> nat i < length chars then chars ! nat i else ''undefined'')"

definition charIndexOf :: "number \<Rightarrow> int" where
  "charIndexOf brightness =
     \<lfloor>jsMul (jsDiv brightness 255) (jsSub (of_nat (length asciiChars)) 1)\<rfloor>"

text \<open>
  The body of the inner loop: what one cell appends. \<open>a < 128\<close> is false when \<open>a\<close> is
  \<open>undefined\<close>.
\<close>

definition asciiCell :: "8 word list \<Rightarrow> nat \<Rightarrow> nat \<Rightarrow> string" where
  "asciiCell pixels y x =
     (let offset = (y * asciiWidth + x) * 4;
          r = px pixels offset;
          g = px pixels (offset + 1);
          b = px pixels (offset + 2);
          a = px pixels (offset + 3);
          brightness = luminosityOf r g b
      in if (case a of None \<Rightarrow> False | Some av \<Rightarrow> av < 128) then '' ''
         else (case brightness of
                 None \<Rightarrow> ''undefined''
               | Some br \<Rightarrow> charAt asciiChars (charIndexOf br)))"

text \<open>The two nested loops; each row ends with a line feed.\<close>

definition asciiRow :: "8 word list \<Rightarrow> string \<Rightarrow> nat \<Rightarrow> string" where
  "asciiRow pixels ascii y =
     foldl (\<lambda>acc x. acc @ asciiCell pixels y x) ascii [0..<asciiWidth] @ [CHR 0x0A]"

definition asciiFromPixels :: "8 word list \<Rightarrow> string" where
  "asciiFromPixels pixels = foldl (asciiRow pixels) [] [0..<asciiHeight]"

definition generateAsciiArt :: "'img Browser \<Rightarrow> string \<Rightarrow> string" where
  "generateAsciiArt env imageUrl =
     (case loadImage env (proxyUrl env imageUrl ''200'') of
        None \<Rightarrow> []
      | Some img \<Rightarrow>
          if \<not> getContext2d env then []
          else asciiFromPixels (drawImage env img asciiWidth asciiHeight True))"

definition generatePixelArt :: "'img Browser \<Rightarrow> string \<Rightarrow> string" where
  "generatePixelArt env imageUrl =
     (case loadImage env (proxyUrl env imageUrl ''200'') of
        None \<Rightarrow> []
      | Some img \<Rightarrow>
          if \<not> getContext2d env then []
          else toDataURL env 64 64 (drawImage env img 64 64 False))"

text \<open>
  Storing a number into a \<open>Uint8ClampedArray\<close>: \<open>NaN\<close> becomes 0, other values are
  clamped to 0..255 and rounded to the nearest integer, a tie to the even one.
\<close>

definition toUint8Clamp :: "number option \<Rightarrow> 8 word" where
  "toUint8Clamp v =
     (case v of
        None \<Rightarrow> 0
      | Some n \<Rightarrow> of_int (roundHalfEven (min 255 (max 0 n))))"

text \<open>
  The grayscale loop \<open>for (i = 0; i < data.length; i += 4)\<close>. A write outside a typed
  array is ignored, as \<open>list_update\<close> does.
\<close>

definition grayscaleStep :: "8 word list \<Rightarrow> nat \<Rightarrow> 8 word list" where
  "grayscaleStep data i =
     (let gray = toUint8Clamp (luminosityOf (px data i) (px data (i + 1)) (px data (i + 2)))
      in data[i := gray, i + 1 := gray, i + 2 := gray])"

function grayscaleLoop :: "nat \<Rightarrow> 8 word list \<Rightarrow> 8 word list" where
  "grayscaleLoop i data =
     (if i < length data then grayscaleLoop (i + 4) (grayscaleStep data i) else data)"
  by pat_completeness auto
termination
  by (relation "measure (\<lambda>(i, data). length data - i)") (auto simp: grayscaleStep_def Let_def)

declare grayscaleLoop.simps [simp del]

definition generateGrayscaleArt :: "'img Browser \<Rightarrow> string \<Rightarrow> string" where
  "generateGrayscaleArt env imageUrl =
     (case loadImage env (proxyUrl env imageUrl ''256'') of
        None \<Rightarrow> []
      | Some img \<Rightarrow>
          if \<not> getContext2d env then []
          else toDataURL env 256 256 (grayscaleLoop 0 (drawImage env img 256 256 True)))"

definition generateColorArt :: "'img Browser \<Rightarrow> string \<Rightarrow> string" where
  "generateColorArt env imageUrl =
     (case loadImage env (proxyUrl env imageUrl ''256'') of
        None \<Rightarrow> []
      | Some img \<Rightarrow>
          if \<not> getContext2d env then []
          else toDataURL env 256 256 (drawImage env img 256 256 True))"

text \<open>The component state that \<open>loadArt\<close> fills, and the art column of the banner.\<close>

record ArtState =
  asciiArt :: string
  pixelArtData :: string
  grayscaleArtData :: string
  colorArtData :: string

definition loadArt :: "'img Browser \<Rightarrow> GitHubUser \<Rightarrow> ArtState" where
  "loadArt env user =
     \<lparr>asciiArt = generateAsciiArt env (avatar_url user),
      pixelArtData = generatePixelArt env (avatar_url user),
      grayscaleArtData = generateGrayscaleArt env (avatar_url user),
      colorArtData = generateColorArt env (avatar_url user)\<rparr>"

text \<open>The values of the property \<open>artType\<close> of \<open>ReadmeBannerProps\<close>.\<close>

datatype ArtType = none | ascii | pixel | grayscale | color

text \<open>The options of the selector \<open>banner-avatar-style-selector\<close>: value and label.\<close>

definition avatarStyleOptions :: "(string \<times> string) list" where
  "avatarStyleOptions =
     [(''none'', ''None''), (''grayscale'', ''Grayscale''), (''color'', ''Color''),
      (''ascii'', ''ASCII Art''), (''pixel'', ''Pixel Art'')]"

definition artTypeValue :: "ArtType \<Rightarrow> string" where
  "artTypeValue t =
     (case t of none \<Rightarrow> ''none'' | ascii \<Rightarrow> ''ascii'' | pixel \<Rightarrow> ''pixel''
      | grayscale \<Rightarrow> ''grayscale'' | color \<Rightarrow> ''color'')"

text \<open>
  The art columns of the rendered banner: \<open>artType === "ascii" && asciiArt && (...)\<close> and
  its three siblings. An empty string is falsy, so an empty result renders nothing.
\<close>

datatype ArtColumn = AsciiPre string | PixelImg string | GrayscaleImg string | ColorImg string

definition artColumns :: "ArtType \<Rightarrow> ArtState \<Rightarrow> ArtColumn list" where
  "artColumns artType st =
     (if artType = ascii \<and> asciiArt st \<noteq> [] then [AsciiPre (asciiArt st)] else []) @
     (if artType = pixel \<and> pixelArtData st \<noteq> [] then [PixelImg (pixelArtData st)] else []) @
     (if artType = grayscale \<and> grayscaleArtData st \<noteq> []
      then [GrayscaleImg (grayscaleArtData st)] else []) @
     (if artType = color \<and> colorArtData st \<noteq> [] then [ColorImg (colorArtData st)] else [])"

subsection \<open>Contribution graph of the wallpaper (WallpaperGenerator.tsx)\<close>

text \<open>The keys of \<open>BACKGROUND_THEMES\<close> in the wallpaper generator.\<close>

datatype BackgroundThemeKey =
  github_universe_green | github_universe_blue | universe_octocanvas | github_dark

text \<open>
  One \<open><rect>\<close> element of \<open>contributionSquares\<close>. The markup is kept as a value:
  whether the \<open>class\<close> attribute is present, the position, the side length (width and
  height are equal), the fill colour and the text of the opacity attribute.
\<close>

record Rect =
  rectClass :: bool
  rectX :: number
  rectY :: number
  rectSide :: number
  rectFill :: string
  rectOpacity :: string

text \<open>The values that \<open>generateSVG\<close> computes before the two loops.\<close>

record GraphLayout =
  layoutTheme :: BackgroundThemeKey
  layoutStatic :: bool
  isUniverseTheme :: bool
  graphX :: number
  graphY :: number
  adjustedCellSize :: number
  adjustedCellGap :: number

definition recentWeeksOf :: "ContributionWeek list \<Rightarrow> ContributionWeek list" where
  \<comment> \<open>\<open>weeks.slice(-53)\<close>: the last 53 weeks, all of them when there are fewer\<close>
  "recentWeeksOf ws = drop (length ws - 53) ws"

definition graphLayout ::
  "BackgroundThemeKey \<Rightarrow> number \<Rightarrow> number \<Rightarrow> bool \<Rightarrow> nat \<Rightarrow> GraphLayout" where
  "graphLayout selectedTheme svgWidth svgHeight isStatic totalWeeks =
     (let scale = jsDiv (min svgWidth svgHeight) 1000;
          centerX = jsDiv svgWidth 2;
          cellSize = jsMul 12 scale;
          cellGap = jsMul 3 scale;
          universe = (selectedTheme = universe_octocanvas);
          universeGraphScale = jsLit (1 / 2);
          cell = (if universe then jsMul cellSize universeGraphScale else cellSize);
          gap = (if universe then jsMul cellGap universeGraphScale else cellGap);
          actualGraphWidth =
            jsAdd (jsMul (of_nat totalWeeks) cell) (jsMul (jsSub (of_nat totalWeeks) 1) gap)
      in \<lparr>layoutTheme = selectedTheme, layoutStatic = isStatic, isUniverseTheme = universe,
          graphX = jsSub centerX (jsDiv actualGraphWidth 2),
          graphY = jsSub svgHeight (jsMul 300 scale),
          adjustedCellSize = cell, adjustedCellGap = gap\<rparr>)"

definition opacityAttr :: "string \<Rightarrow> string" where
  \<comment> \<open>the text \<open> opacity="v"\<close>\<close>
  "opacityAttr v = '' opacity='' @ [CHR 0x22] @ v @ [CHR 0x22]"

text \<open>Fill colour and opacity attribute of a day with the given count.\<close>

definition squareColor :: "BackgroundThemeKey \<Rightarrow> number \<Rightarrow> string \<times> string" where
  "squareColor selectedTheme n =
     (if selectedTheme = github_universe_blue then
        (if n = 0 then (''#FFFFFF'', opacityAttr ''0.5'')
         else if n \<ge> 10 then (''#0527FC'', [])
         else if n \<ge> 5 then (''#3094FF'', [])
         else (''#9EECFF'', []))
      else
        (if n > 0 then
           (if n \<ge> 15 then (''#5fed83'', [])
            else if n \<ge> 10 then (''#5fed83'', [])
            else if n \<ge> 5 then (''#8cf2a6'', [])
            else if n \<ge> 2 then (''#bfffd1'', [])
            else (''#dcff96'', []))
         else (''#000000'', opacityAttr ''0.2'')))"

text \<open>The rectangle that the loop body appends for day \<open>dayIdx\<close> of week \<open>weekIdx\<close>.\<close>

definition squareAt :: "GraphLayout \<Rightarrow> nat \<Rightarrow> nat \<Rightarrow> ContributionDay \<Rightarrow> Rect" where
  "squareAt l weekIdx dayIdx day =
     (let pitch = jsAdd (adjustedCellSize l) (adjustedCellGap l);
          sx = (if isUniverseTheme l then jsMul (of_nat weekIdx) pitch
                else jsAdd (graphX l) (jsMul (of_nat weekIdx) pitch));
          sy = (if isUniverseTheme l then jsMul (of_nat dayIdx) pitch
                else jsAdd (graphY l) (jsMul (of_nat dayIdx) pitch));
          col = squareColor (layoutTheme l) (contributionCount day)
      in \<lparr>rectClass = \<not> layoutStatic l, rectX = sx, rectY = sy,
          rectSide = adjustedCellSize l, rectFill = fst col, rectOpacity = snd col\<rparr>)"

text \<open>
  Reading an array: an index outside it gives \<open>undefined\<close>, here \<open>None\<close>. Reading a
  property of \<open>undefined\<close> throws a \<open>TypeError\<close>.
\<close>

definition elementAt :: "'a list \<Rightarrow> nat \<Rightarrow> 'a option" where
  "elementAt xs i = (if i < length xs then Some (xs ! i) else None)"

datatype jsError = TypeError

text \<open>
  The state of the two loops: the rectangles appended to \<open>contributionSquares\<close> so far,
  and a log of the indexed reads \<open>recentWeeks[weekIdx]\<close> and
  \<open>week.contributionDays[dayIdx]\<close> performed so far, each with the index used and the
  length of the array read.
\<close>

record ArrayRead =
  readIndex :: nat
  readLength :: nat

record Drawing =
  rects :: "Rect list"
  reads :: "ArrayRead list"

definition logRead :: "'a list \<Rightarrow> nat \<Rightarrow> Drawing \<Rightarrow> Drawing" where
  "logRead xs i st = st\<lparr>reads := reads st @ [\<lparr>readIndex = i, readLength = length xs\<rparr>]\<rparr>"

text \<open>
  The inner loop \<open>for (dayIdx = 0; dayIdx < daysInWeek; dayIdx++)\<close> with
  \<open>daysInWeek = week.contributionDays?.length || 0\<close>; an undefined day is skipped.
\<close>

definition weekSquares :: "GraphLayout \<Rightarrow> ContributionWeek \<Rightarrow> nat \<Rightarrow> Drawing \<Rightarrow> Drawing" where
  "weekSquares l week weekIdx st =
     (let daysInWeek = length (contributionDays week)
      in foldl (\<lambda>acc dayIdx.
                  case elementAt (contributionDays week) dayIdx of
                    None \<Rightarrow> logRead (contributionDays week) dayIdx acc
                  | Some day \<Rightarrow>
                      (logRead (contributionDays week) dayIdx acc)
                        \<lparr>rects := rects acc @ [squareAt l weekIdx dayIdx day]\<rparr>)
               st [0..<daysInWeek])"

text \<open>The outer loop \<open>for (weekIdx = 0; weekIdx < totalWeeks; weekIdx++)\<close>.\<close>

definition weeksLoop :: "GraphLayout \<Rightarrow> ContributionWeek list \<Rightarrow> jsError + Drawing" where
  "weeksLoop l recentWeeks =
     foldl (\<lambda>acc weekIdx.
              case acc of
                Inl e \<Rightarrow> Inl e
              | Inr st \<Rightarrow>
                  (case elementAt recentWeeks weekIdx of
                     None \<Rightarrow> Inl TypeError
                   | Some week \<Rightarrow> Inr (weekSquares l week weekIdx (logRead recentWeeks weekIdx st))))
           (Inr \<lparr>rects = [], reads = []\<rparr>) [0..<length recentWeeks]"

text \<open>The part of \<open>generateSVG\<close> that builds \<open>contributionSquares\<close>.\<close>

definition contributionSquares ::
  "BackgroundThemeKey \<Rightarrow> number \<Rightarrow> number \<Rightarrow> bool \<Rightarrow> ContributionData option
     \<Rightarrow> jsError + Drawing" where
  "contributionSquares selectedTheme svgWidth svgHeight isStatic contribs =
     (case contribs of
        None \<Rightarrow> Inr \<lparr>rects = [], reads = []\<rparr>
      | Some c \<Rightarrow>
          if length (weeks c) > 0 then
            (let recentWeeks = recentWeeksOf (weeks c);
                 totalWeeks = length recentWeeks
             in weeksLoop (graphLayout selectedTheme svgWidth svgHeight isStatic totalWeeks)
                  recentWeeks)
          else Inr \<lparr>rects = [], reads = []\<rparr>)"

subsection \<open>Export of the artifacts\<close>















text \<open>
  \<open>downloadCard\<close>: the badge or the card element, rendered at scale 3. The component
  sets no size on the card element: its box results from a style sheet that is not part
  of the sources and from the content laid out in it, so the element is an argument.
\<close>

datatype CardFormat = card | badge


section \<open>Auxiliary notions\<close>

text \<open>The binary exponent of the spacing of the binary64 values around a number.\<close>

definition ulpExponent :: "real \<Rightarrow> int" where
  "ulpExponent x = max (exponentOf \<bar>x\<bar>) (- 1022) - 52"

text \<open>The text that one pass of the outer loop of the ASCII transform appends.\<close>

definition rowText :: "8 word list \<Rightarrow> nat \<Rightarrow> string" where
  "rowText pixels y = concat (map (asciiCell pixels y) [0..<asciiWidth]) @ [CHR 0x0A]"

text \<open>The value that the grayscale loop stores for the pixel that starts at index \<open>i\<close>.\<close>

definition grayAt :: "8 word list \<Rightarrow> nat \<Rightarrow> 8 word" where
  "grayAt data i = toUint8Clamp (luminosityOf (px data i) (px data (i + 1)) (px data (i + 2)))"

text \<open>
  The rectangles of the contribution graph, read off the weeks directly: one for every
  day that a week has, week by week.
\<close>

definition drawnSquares :: "GraphLayout \<Rightarrow> ContributionWeek list \<Rightarrow> Rect list" where
  "drawnSquares l recentWeeks =
     concat (map (\<lambda>w. map (\<lambda>d. squareAt l w d (contributionDays (recentWeeks ! w) ! d))
                            [0..<length (contributionDays (recentWeeks ! w))])
                 [0..<length recentWeeks])"

text \<open>
  The reads that drawing the weeks takes when every week is read once and, of every week,
  every day it has once: week by week, the read of the week followed by the reads of its
  days.
\<close>

definition weekReads :: "ContributionWeek list \<Rightarrow> nat \<Rightarrow> ArrayRead list" where
  "weekReads recentWeeks w =
     \<lparr>readIndex = w, readLength = length recentWeeks\<rparr> #
     map (\<lambda>d. \<lparr>readIndex = d, readLength = length (contributionDays (recentWeeks ! w))\<rparr>)
         [0..<length (contributionDays (recentWeeks ! w))]"

definition expectedReads :: "ContributionWeek list \<Rightarrow> ArrayRead list" where
  "expectedReads recentWeeks = concat (map (weekReads recentWeeks) [0..<length recentWeeks])"

text \<open>
  The values that the pixels of a buffer have in one channel (0 red, 1 green, 2 blue,
  3 alpha), pixel by pixel.
\<close>

definition channelValues :: "nat \<Rightarrow> 8 word list \<Rightarrow> 8 word list" where
  "channelValues c data = map (\<lambda>k. data ! (4 * k + c)) [0..<length data div 4]"

section \<open>Concrete inputs\<close>

text \<open>A profile with the given number of followers and nothing else, and empty statistics.\<close>

definition profileOf :: "number \<Rightarrow> GitHubUser" where
  "profileOf f =
     \<lparr>login = ''octocat'', avatar_url = ''https://avatars.githubusercontent.com/u/583231'',
      followers = f, public_repos = 0, contributions = None\<rparr>"

definition noStats :: ExtendedStats where
  "noStats = \<lparr>totalStars = 0, totalForks = 0\<rparr>"

text \<open>
  Two pixel buffers of the 60 by 40 grid, one white and opaque, one black and fully
  transparent, and a browser that loads any image and draws the given pixels.
\<close>

definition whitePixels :: "8 word list" where
  "whitePixels = replicate 9600 255"

definition clearPixels :: "8 word list" where
  "clearPixels = replicate 9600 0"

definition stillBrowser :: "8 word list \<Rightarrow> unit Browser" where
  "stillBrowser pixels =
     \<lparr>encodeURIComponent = (\<lambda>s. s), loadImage = (\<lambda>u. Some ()), getContext2d = True,
      drawImage = (\<lambda>img w h smooth. pixels), toDataURL = (\<lambda>w h data. ''data:image/png;base64,'')\<rparr>"

text \<open>A buffer of two pixels: an opaque dark one and a transparent white one.\<close>

definition twoPixels :: "8 word list" where
  "twoPixels = [10, 20, 30, 200, 255, 255, 255, 0]"

text \<open>Two user names as typed: one with two leading \<open>@\<close>, one with a trailing blank.\<close>

definition doubleAt :: jsstring where
  "doubleAt = jsstr ''@@octocat''"

definition spacedName :: jsstring where
  "spacedName = jsstr ''@octocat ''"

text \<open>A browser in which no image loads.\<close>

definition failingBrowser :: "unit Browser" where
  "failingBrowser =
     \<lparr>encodeURIComponent = (\<lambda>s. s), loadImage = (\<lambda>u. None), getContext2d = True,
      drawImage = (\<lambda>img w h smooth. []), toDataURL = (\<lambda>w h data. ''data:image/png;base64,'')\<rparr>"

text \<open>A contribution series of two weeks, the second with three days only.\<close>

definition dayWith :: "number \<Rightarrow> ContributionDay" where
  "dayWith n = \<lparr>contributionCount = n, date = []\<rparr>"

definition shortYear :: ContributionData where
  "shortYear =
     \<lparr>totalContributions = 18,
      weeks = [\<lparr>contributionDays = map dayWith [0, 1, 2, 0, 5, 3, 1]\<rparr>,
               \<lparr>contributionDays = map dayWith [2, 0, 4]\<rparr>]\<rparr>"

text \<open>
  An avatar that is a ramp of grays: drawn onto a canvas of any size, its pixel number
  \<open>k\<close> is opaque and has the level \<open>k mod 256\<close> in red, green and blue. And a browser
  that loads this avatar and encodes a canvas as its bytes, one character for each.
\<close>

definition rampImage :: "nat \<Rightarrow> nat \<Rightarrow> 8 word list" where
  "rampImage w h = concat (map (\<lambda>k. [of_nat k, of_nat k, of_nat k, 255]) [0..<w * h])"

definition bytesOf :: "8 word list \<Rightarrow> string" where
  "bytesOf data = map (\<lambda>v. char_of (unat v)) data"

definition rampBrowser :: "unit Browser" where
  "rampBrowser =
     \<lparr>encodeURIComponent = (\<lambda>s. s), loadImage = (\<lambda>u. Some ()), getContext2d = True,
      drawImage = (\<lambda>img w h smooth. rampImage w h), toDataURL = (\<lambda>w h data. bytesOf data)\<rparr>"

definition octocatAvatar :: string where
  "octocatAvatar = ''https://avatars.githubusercontent.com/u/583231''"

section \<open>Verified properties\<close>

subsection \<open>Rounding\<close>

lemma roundHalfEven_bounds:
  "\<lfloor>x\<rfloor> \<le> roundHalfEven x" "roundHalfEven x \<le> \<lfloor>x\<rfloor> + 1"
  by (simp_all add: roundHalfEven_def Let_def)

lemma roundHalfEven_of_int: "roundHalfEven (of_int n) = n"
  by (simp add: roundHalfEven_def)

lemma roundHalfEven_mono:
  assumes "x \<le> y"
  shows "roundHalfEven x \<le> roundHalfEven y"
proof (cases "\<lfloor>x\<rfloor> = \<lfloor>y\<rfloor>")
  case True
  have "x - of_int \<lfloor>x\<rfloor> \<le> y - of_int \<lfloor>y\<rfloor>"
    using assms True by simp
  then show ?thesis
    using True by (auto simp: roundHalfEven_def Let_def)
next
  case False
  then have "\<lfloor>x\<rfloor> < \<lfloor>y\<rfloor>"
    using floor_mono [OF assms] by simp
  then have "roundHalfEven x \<le> \<lfloor>y\<rfloor>"
    using roundHalfEven_bounds(2) [of x] by simp
  then show ?thesis
    using roundHalfEven_bounds(1) [of y] by simp
qed

lemma exponentOf_bounds:
  assumes "0 < x"
  shows "2 powi (exponentOf x) \<le> x" "x < 2 powi (exponentOf x + 1)"
proof -
  have "2 powi (exponentOf x) \<le> x \<and> x < 2 powi (exponentOf x + 1)"
  proof (cases "1 \<le> x")
    case True
    define n where "n = nat \<lfloor>x\<rfloor>"
    define k where "k = floorlog 2 n"
    have n: "0 < n" "real n \<le> x" "x < real n + 1"
      using True by (simp_all add: n_def)
    have b: "2 ^ (k - 1) \<le> n" "n < 2 ^ k"
      using floorlog_bounds [of n 2] n(1) by (simp_all add: k_def)
    have k: "0 < k" using b(2) n(1) by (cases k) simp_all
    have e: "exponentOf x = int k - 1"
      using True by (simp add: exponentOf_def n_def k_def bitlen_def)
    have p1: "(2::real) powi (int k - 1) = 2 ^ (k - 1)"
      using k by (simp add: power_int_def nat_diff_distrib')
    have p2: "(2::real) powi (int k - 1 + 1) = 2 ^ k"
      by simp
    have "real (2 ^ (k - 1)) \<le> real n"
      using b(1) by (rule of_nat_mono)
    then have "(2::real) ^ (k - 1) \<le> real n"
      unfolding of_nat_power of_nat_numeral .
    moreover have "real (Suc n) \<le> real (2 ^ k)"
      using b(2) by (intro of_nat_mono) simp
    then have "real n + 1 \<le> 2 ^ k"
      unfolding of_nat_power of_nat_numeral of_nat_Suc by linarith
    ultimately show ?thesis
      using n(2,3) unfolding e p1 p2 by linarith
  next
    case False
    define y where "y = 1 / x"
    define n where "n = nat \<lceil>y\<rceil>"
    define k where "k = floorlog 2 (n - 1)"
    have y: "1 < y" using False assms by (simp add: y_def)
    have n: "2 \<le> n" "y \<le> real n" "real n - 1 < y"
      using y by (simp_all add: n_def) linarith+
    have b: "2 ^ (k - 1) \<le> n - 1" "n - 1 < 2 ^ k"
      using floorlog_bounds [of "n - 1" 2] n(1) by (simp_all add: k_def)
    have k: "0 < k" using b(2) n(1) by (cases k) simp_all
    have "nat (\<lceil>y\<rceil> - 1) = nat \<lceil>y\<rceil> - 1"
      by (simp add: nat_diff_distrib')
    then have e: "exponentOf x = - int k"
      using False by (simp add: exponentOf_def n_def k_def y_def bitlen_def)
    have p1: "(2::real) powi (- int k) = 1 / 2 ^ k"
      by (simp add: power_int_minus_divide)
    have p2: "(2::real) powi (- int k + 1) = 1 / 2 ^ (k - 1)"
    proof -
      have "- int k + 1 = - int (k - 1)" using k by simp
      then show ?thesis by (simp only: power_int_minus_divide power_int_of_nat)
    qed
    have "real n \<le> real (2 ^ k)"
      using b(2) n(1) by (intro of_nat_mono) simp
    then have u: "y \<le> 2 ^ k"
      using n(2) unfolding of_nat_power of_nat_numeral by linarith
    have "real (2 ^ (k - 1)) \<le> real (n - 1)"
      using b(1) by (rule of_nat_mono)
    moreover have "real (n - 1) = real n - 1"
      using n(1) by (simp add: of_nat_diff)
    ultimately have l: "2 ^ (k - 1) < y"
      using n(3) unfolding of_nat_power of_nat_numeral by linarith
    have "1 / 2 ^ k \<le> x"
      using u assms by (simp add: y_def field_simps)
    moreover have "x < 1 / 2 ^ (k - 1)"
      using l assms by (simp add: y_def field_simps)
    ultimately show ?thesis
      unfolding e p1 p2 by simp
  qed
  then show "2 powi (exponentOf x) \<le> x" "x < 2 powi (exponentOf x + 1)"
    by simp_all
qed


lemma rnd_pos:
  assumes "0 < x"
  shows "rnd x = of_int (roundHalfEven (x / 2 powi ulpExponent x)) * 2 powi ulpExponent x"
  using assms by (simp add: rnd_def ulpExponent_def Let_def)

lemma two_powi_split: "(2::real) powi (a + b) = 2 powi a * 2 powi b"
  by (simp add: power_int_add)

lemma rnd_upper:
  assumes "0 < x"
  shows "rnd x \<le> 2 powi (ulpExponent x + 53)"
proof -
  let ?u = "(2::real) powi ulpExponent x"
  have u: "0 < ?u" by simp
  have "exponentOf x + 1 \<le> ulpExponent x + 53"
    using assms by (simp add: ulpExponent_def)
  then have "(2::real) powi (exponentOf x + 1) \<le> 2 powi (ulpExponent x + 53)"
    by (intro power_int_increasing) simp_all
  then have "x \<le> 2 powi (ulpExponent x + 53)"
    using exponentOf_bounds(2) [OF assms] by linarith
  also have "\<dots> = of_int (2 ^ 53) * ?u"
    by (simp add: two_powi_split)
  finally have "x / ?u \<le> of_int (2 ^ 53)"
    using u by (simp add: pos_divide_le_eq)
  then have "roundHalfEven (x / ?u) \<le> roundHalfEven (of_int (2 ^ 53))"
    by (rule roundHalfEven_mono)
  then have "roundHalfEven (x / ?u) \<le> 2 ^ 53"
    by (simp only: roundHalfEven_of_int)
  then have "real_of_int (roundHalfEven (x / ?u)) \<le> real_of_int (2 ^ 53)"
    by (rule of_int_le_iff [THEN iffD2])
  then have "real_of_int (roundHalfEven (x / ?u)) * ?u \<le> real_of_int (2 ^ 53) * ?u"
    using u by (intro mult_right_mono) simp_all
  then show ?thesis
    by (simp add: rnd_pos [OF assms] two_powi_split)
qed

lemma rnd_lower:
  assumes "0 < x" "- 1022 \<le> exponentOf x"
  shows "2 powi (ulpExponent x + 52) \<le> rnd x"
proof -
  let ?u = "(2::real) powi ulpExponent x"
  have u: "0 < ?u" by simp
  have "ulpExponent x + 52 = exponentOf x"
    using assms by (simp add: ulpExponent_def)
  then have "2 powi (ulpExponent x + 52) \<le> x"
    using exponentOf_bounds(1) [OF assms(1)] by simp
  moreover have "(2::real) powi (ulpExponent x + 52) = of_int (2 ^ 52) * ?u"
    by (simp add: two_powi_split)
  ultimately have "of_int (2 ^ 52) \<le> x / ?u"
    using u by (simp add: pos_le_divide_eq)
  then have "roundHalfEven (of_int (2 ^ 52)) \<le> roundHalfEven (x / ?u)"
    by (rule roundHalfEven_mono)
  then have "2 ^ 52 \<le> roundHalfEven (x / ?u)"
    by (simp only: roundHalfEven_of_int)
  then have "real_of_int (2 ^ 52) \<le> real_of_int (roundHalfEven (x / ?u))"
    by (rule of_int_le_iff [THEN iffD2])
  then have "real_of_int (2 ^ 52) * ?u \<le> real_of_int (roundHalfEven (x / ?u)) * ?u"
    using u by (intro mult_right_mono) simp_all
  then show ?thesis
    by (simp add: rnd_pos [OF assms(1)] two_powi_split)
qed

lemma rnd_nonneg:
  assumes "0 \<le> x"
  shows "0 \<le> rnd x"
proof (cases "x = 0")
  case True
  then show ?thesis by (simp add: rnd_def)
next
  case False
  then have x: "0 < x" using assms by simp
  have "0 \<le> x / 2 powi ulpExponent x" using x by simp
  then have "0 \<le> \<lfloor>x / 2 powi ulpExponent x\<rfloor>" by simp
  then have "0 \<le> roundHalfEven (x / 2 powi ulpExponent x)"
    using roundHalfEven_bounds(1) [of "x / 2 powi ulpExponent x"] by linarith
  then show ?thesis
    by (simp add: rnd_pos [OF x])
qed

lemma exponentOf_mono:
  assumes "0 < x" "x \<le> y"
  shows "exponentOf x \<le> exponentOf y"
proof (rule ccontr)
  assume "\<not> exponentOf x \<le> exponentOf y"
  then have "exponentOf y + 1 \<le> exponentOf x" by simp
  then have "(2::real) powi (exponentOf y + 1) \<le> 2 powi (exponentOf x)"
    by (intro power_int_increasing) simp_all
  moreover have "0 < y" using assms by simp
  ultimately show False
    using exponentOf_bounds(1) [OF assms(1)] exponentOf_bounds(2) [of y] assms(2)
    by linarith
qed

lemma rnd_mono:
  assumes "0 \<le> x" "x \<le> y"
  shows "rnd x \<le> rnd y"
proof (cases "x = 0")
  case True
  then show ?thesis using rnd_nonneg [of y] assms by (simp add: rnd_def)
next
  case False
  then have x: "0 < x" and y: "0 < y" using assms by simp_all
  have le: "ulpExponent x \<le> ulpExponent y"
    using exponentOf_mono [OF x assms(2)] x y by (simp add: ulpExponent_def)
  show ?thesis
  proof (cases "ulpExponent x = ulpExponent y")
    case True
    let ?u = "(2::real) powi ulpExponent y"
    have "x / ?u \<le> y / ?u"
      using assms(2) by (simp add: divide_right_mono)
    then have "roundHalfEven (x / ?u) \<le> roundHalfEven (y / ?u)"
      by (rule roundHalfEven_mono)
    then have "real_of_int (roundHalfEven (x / ?u)) * ?u \<le> real_of_int (roundHalfEven (y / ?u)) * ?u"
      by (intro mult_right_mono) simp_all
    then show ?thesis
      by (simp add: rnd_pos [OF x] rnd_pos [OF y] True)
  next
    case False
    then have lt: "ulpExponent x + 53 \<le> ulpExponent y + 52" using le by simp
    have "- 1022 \<le> exponentOf y"
      using False le y by (simp add: ulpExponent_def max_def split: if_splits)
    then have "2 powi (ulpExponent y + 52) \<le> rnd y"
      using y by (intro rnd_lower)
    moreover have "(2::real) powi (ulpExponent x + 53) \<le> 2 powi (ulpExponent y + 52)"
      using lt by (intro power_int_increasing) simp_all
    ultimately show ?thesis
      using rnd_upper [OF x] by linarith
  qed
qed

lemma rnd_small_values: "rnd 0 = 0" "rnd 1 = 1" "rnd 69 = 69" "rnd 70 = 70" "rnd 255 = 255"
  by code_simp+

lemma jsLit_nonneg: "0 \<le> x \<Longrightarrow> 0 \<le> jsLit x"
  by (simp add: jsLit_def rnd_nonneg)

lemma jsMul_nonneg: "0 \<le> a \<Longrightarrow> 0 \<le> b \<Longrightarrow> 0 \<le> jsMul a b"
  by (simp add: jsMul_def rnd_nonneg)

lemma jsAdd_nonneg: "0 \<le> a \<Longrightarrow> 0 \<le> b \<Longrightarrow> 0 \<le> jsAdd a b"
  by (simp add: jsAdd_def rnd_nonneg)

lemma jsDiv_nonneg: "0 \<le> a \<Longrightarrow> 0 \<le> b \<Longrightarrow> 0 \<le> jsDiv a b"
  by (simp add: jsDiv_def rnd_nonneg)

lemma jsMul_mono:
  assumes "0 \<le> a" "a \<le> a'" "0 \<le> b" "b \<le> b'"
  shows "jsMul a b \<le> jsMul a' b'"
  unfolding jsMul_def using assms by (intro rnd_mono mult_mono) simp_all

lemma jsAdd_mono:
  assumes "0 \<le> a" "a \<le> a'" "0 \<le> b" "b \<le> b'"
  shows "jsAdd a b \<le> jsAdd a' b'"
  unfolding jsAdd_def using assms by (intro rnd_mono add_mono) simp_all

lemma jsDiv_mono:
  assumes "0 \<le> a" "a \<le> a'" "0 < b"
  shows "jsDiv a b \<le> jsDiv a' b"
  unfolding jsDiv_def using assms by (intro rnd_mono divide_right_mono) simp_all

lemma roundHalfEven_near:
  assumes "\<bar>x - of_int n\<bar> < 1 / 2"
  shows "roundHalfEven x = n"
proof (cases "of_int n \<le> x")
  case True
  then have "\<lfloor>x\<rfloor> = n" using assms by (intro floor_unique) linarith+
  then show ?thesis using assms True by (simp add: roundHalfEven_def Let_def)
next
  case False
  then have f: "\<lfloor>x\<rfloor> = n - 1" using assms by (intro floor_unique) simp_all
  have "x - of_int (n - 1) > 1 / 2" using assms False by simp
  then show ?thesis unfolding roundHalfEven_def Let_def f by simp
qed

lemma roundHalfEven_error: "\<bar>of_int (roundHalfEven x) - x\<bar> \<le> 1 / 2"
proof -
  have "of_int \<lfloor>x\<rfloor> \<le> x" "x < of_int \<lfloor>x\<rfloor> + 1" by linarith+
  then show ?thesis
    by (auto simp: roundHalfEven_def Let_def)
qed

lemma exponentOf_ge:
  assumes "1 / 16 \<le> x"
  shows "- 4 \<le> exponentOf x"
proof (rule ccontr)
  assume "\<not> - 4 \<le> exponentOf x"
  then have "exponentOf x + 1 \<le> - 4" by simp
  then have "(2::real) powi (exponentOf x + 1) \<le> 2 powi (- 4)"
    by (intro power_int_increasing) simp_all
  moreover have "(2::real) powi (- 4) = 1 / 16"
    by (simp add: power_int_minus_divide)
  moreover have "0 < x" using assms by simp
  ultimately show False
    using exponentOf_bounds(2) [of x] assms by linarith
qed

lemma rnd_error:
  assumes "1 / 16 \<le> x"
  shows "\<bar>rnd x - x\<bar> \<le> x / 2 ^ 53"
proof -
  have x: "0 < x" using assms by simp
  let ?e = "ulpExponent x"
  let ?u = "(2::real) powi ?e"
  have u: "0 < ?u" by simp
  have ax: "\<bar>x\<bar> = x" using x by simp
  have e: "?e = exponentOf x - 52"
    using exponentOf_ge [OF assms] unfolding ulpExponent_def ax by simp
  have "\<bar>of_int (roundHalfEven (x / ?u)) - x / ?u\<bar> * ?u \<le> 1 / 2 * ?u"
    using roundHalfEven_error [of "x / ?u"] by (intro mult_right_mono) simp_all
  moreover have "\<bar>of_int (roundHalfEven (x / ?u)) - x / ?u\<bar> * ?u
      = \<bar>of_int (roundHalfEven (x / ?u)) * ?u - x\<bar>"
  proof -
    have "\<bar>of_int (roundHalfEven (x / ?u)) - x / ?u\<bar> * ?u
        = \<bar>(of_int (roundHalfEven (x / ?u)) - x / ?u) * ?u\<bar>"
      using u by (simp add: abs_mult)
    also have "(of_int (roundHalfEven (x / ?u)) - x / ?u) * ?u
        = of_int (roundHalfEven (x / ?u)) * ?u - x"
      using u by (simp add: left_diff_distrib)
    finally show ?thesis .
  qed
  ultimately have a: "\<bar>rnd x - x\<bar> \<le> ?u / 2"
    by (simp add: rnd_pos [OF x])
  have "exponentOf x = ?e + 52" using e by simp
  then have "2 powi (?e + 52) \<le> x"
    using exponentOf_bounds(1) [OF x] by simp
  then have "?u * 2 ^ 52 \<le> x"
    by (simp add: two_powi_split)
  then have "?u / 2 \<le> x / 2 ^ 53"
    by (simp add: field_simps)
  with a show ?thesis by linarith
qed

lemma rnd_near:
  assumes "1 / 16 \<le> x"
  shows "x - x / 1000000 \<le> rnd x" "rnd x \<le> x + x / 1000000"
proof -
  have "x / 2 ^ 53 \<le> x / 1000000"
    using assms by (intro divide_left_mono) simp_all
  then have "\<bar>rnd x - x\<bar> \<le> x / 1000000"
    using rnd_error [OF assms] by linarith
  then show "x - x / 1000000 \<le> rnd x" "rnd x \<le> x + x / 1000000"
    by linarith+
qed

lemma jsMul_literal_near:
  assumes "1 / 10 \<le> c" "c \<le> 1" "1 \<le> v" 
  shows "c * v - c * v / 400000 \<le> jsMul (jsLit c) v"
        "jsMul (jsLit c) v \<le> c * v + c * v / 400000"
proof -
  have c: "1 / 16 \<le> c" using assms by simp
  note l = rnd_near [OF c]
  have l0: "1 / 16 \<le> rnd c" using l(1) assms by simp
  have v: "0 \<le> v" using assms by simp
  have lo: "(c - c / 1000000) * v \<le> rnd c * v"
    using l(1) v by (rule mult_right_mono)
  have hi: "rnd c * v \<le> (c + c / 1000000) * v"
    using l(2) v by (rule mult_right_mono)
  have "1 / 16 * 1 \<le> rnd c * v"
    using l0 assms(3) by (intro mult_mono) simp_all
  then have p: "1 / 16 \<le> rnd c * v" by simp
  note m = rnd_near [OF p]
  have cv: "0 \<le> c * v" using assms by simp
  show "c * v - c * v / 400000 \<le> jsMul (jsLit c) v"
    unfolding jsMul_def jsLit_def using m(1) lo hi cv by (simp add: algebra_simps)
  show "jsMul (jsLit c) v \<le> c * v + c * v / 400000"
    unfolding jsMul_def jsLit_def using m(2) lo hi cv by (simp add: algebra_simps)
qed

lemma luminosity_gray_near:
  assumes "1 \<le> v" "v \<le> 255"
  shows "\<bar>luminosity v v v - v\<bar> < 1 / 2"
proof -
  define p1 where "p1 = jsMul (jsLit (299 / 1000)) v"
  define p2 where "p2 = jsMul (jsLit (587 / 1000)) v"
  define p3 where "p3 = jsMul (jsLit (114 / 1000)) v"
  define s1 where "s1 = jsAdd p1 p2"
  have lum: "luminosity v v v = jsAdd s1 p3"
    by (simp add: luminosity_def s1_def p1_def p2_def p3_def)
  have b1: "299 / 1000 * v - 299 / 1000 * v / 400000 \<le> p1"
           "p1 \<le> 299 / 1000 * v + 299 / 1000 * v / 400000"
    unfolding p1_def using assms(1) by (intro jsMul_literal_near; simp)+
  have b2: "587 / 1000 * v - 587 / 1000 * v / 400000 \<le> p2"
           "p2 \<le> 587 / 1000 * v + 587 / 1000 * v / 400000"
    unfolding p2_def using assms(1) by (intro jsMul_literal_near; simp)+
  have b3: "114 / 1000 * v - 114 / 1000 * v / 400000 \<le> p3"
           "p3 \<le> 114 / 1000 * v + 114 / 1000 * v / 400000"
    unfolding p3_def using assms(1) by (intro jsMul_literal_near; simp)+
  have "1 / 16 \<le> p1 + p2" using b1(1) b2(1) assms(1) by simp
  note a1 = rnd_near [OF this]
  have s1: "p1 + p2 - (p1 + p2) / 1000000 \<le> s1" "s1 \<le> p1 + p2 + (p1 + p2) / 1000000"
    unfolding s1_def jsAdd_def using a1 by simp_all
  have "1 / 16 \<le> s1 + p3" using s1(1) b1(1) b2(1) b3(1) assms(1) by (simp add: field_simps)
  note a2 = rnd_near [OF this]
  have s2: "s1 + p3 - (s1 + p3) / 1000000 \<le> luminosity v v v"
           "luminosity v v v \<le> s1 + p3 + (s1 + p3) / 1000000"
    unfolding lum jsAdd_def using a2 by simp_all
  have up: "luminosity v v v * 1000000 \<le> p3 * 1000001 + s1 * 1000001"
       "s1 * 1000000 \<le> p1 * 1000001 + p2 * 1000001"
       "p1 * 400000000 \<le> v * 119600299" "p2 * 400000000 \<le> v * 234800587"
       "p3 * 200000000 \<le> v * 22800057"
    using s2(2) s1(2) b1(2) b2(2) b3(2) by (simp_all add: field_simps)
  have lo: "p3 * 999999 + s1 * 999999 \<le> luminosity v v v * 1000000"
       "p1 * 999999 + p2 * 999999 \<le> s1 * 1000000"
       "v * 119599701 \<le> p1 * 400000000" "v * 234799413 \<le> p2 * 400000000"
       "v * 22799943 \<le> p3 * 200000000"
    using s2(1) s1(1) b1(1) b2(1) b3(1) by (simp_all add: field_simps)
  have "luminosity v v v < v + 1 / 2"
    using up assms by linarith
  moreover have "v - 1 / 2 < luminosity v v v"
    using lo assms by linarith
  ultimately show ?thesis by linarith
qed

subsection \<open>Rarity tiers\<close>

text \<open>
  C3. The tier is monotonic in the computed power score: of two profiles, the one with the
  strictly higher score never gets a strictly lower tier. A score that sits exactly on a
  boundary gets the tier that begins there: 100 is Uncommon, 300 Rare, 800 Epic,
  2000 Legendary and 5000 Mythical.
\<close>

theorem calculateRarity_monotone_boundaries:
  "(powerLevel u1 s1 < powerLevel u2 s2 \<longrightarrow>
      rarityRank (calculateRarity u1 s1) \<le> rarityRank (calculateRarity u2 s2)) \<and>
   (powerLevel ua sa = 100 \<longrightarrow> calculateRarity ua sa = uncommon) \<and>
   (powerLevel ub sb = 300 \<longrightarrow> calculateRarity ub sb = rare) \<and>
   (powerLevel uc sc = 800 \<longrightarrow> calculateRarity uc sc = epic) \<and>
   (powerLevel ud sd = 2000 \<longrightarrow> calculateRarity ud sd = legendary) \<and>
   (powerLevel ue se = 5000 \<longrightarrow> calculateRarity ue se = mythical)"
  by (simp add: calculateRarity_def Let_def)

lemma powerLevel_profileOf:
  "powerLevel (profileOf 50) noStats = 100"
  "powerLevel (profileOf 150) noStats = 300"
  "powerLevel (profileOf 400) noStats = 800"
  "powerLevel (profileOf 1000) noStats = 2000"
  "powerLevel (profileOf 2500) noStats = 5000"
  by code_simp+

theorem calculateRarity_monotone_boundaries_witness:
  "powerLevel (profileOf 50) noStats < powerLevel (profileOf 150) noStats \<and>
   rarityRank (calculateRarity (profileOf 50) noStats)
     \<le> rarityRank (calculateRarity (profileOf 150) noStats) \<and>
   powerLevel (profileOf 50) noStats = 100 \<and>
   calculateRarity (profileOf 50) noStats = uncommon \<and>
   powerLevel (profileOf 150) noStats = 300 \<and>
   calculateRarity (profileOf 150) noStats = rare \<and>
   powerLevel (profileOf 400) noStats = 800 \<and>
   calculateRarity (profileOf 400) noStats = epic \<and>
   powerLevel (profileOf 1000) noStats = 2000 \<and>
   calculateRarity (profileOf 1000) noStats = legendary \<and>
   powerLevel (profileOf 2500) noStats = 5000 \<and>
   calculateRarity (profileOf 2500) noStats = mythical"
  using calculateRarity_monotone_boundaries
    [of "profileOf 50" noStats "profileOf 150" noStats
        "profileOf 50" noStats "profileOf 150" noStats "profileOf 400" noStats
        "profileOf 1000" noStats "profileOf 2500" noStats]
  by (simp add: powerLevel_profileOf)

subsection \<open>The ASCII transform\<close>

lemma foldl_append_concat:
  "foldl (\<lambda>acc x. acc @ f x) a xs = a @ concat (map f xs)"
  by (induction xs arbitrary: a) simp_all

lemma asciiRow_eq:
  "asciiRow pixels acc y = acc @ concat (map (asciiCell pixels y) [0..<asciiWidth]) @ [CHR 0x0A]"
  by (simp add: asciiRow_def foldl_append_concat)


lemma foldl_asciiRow:
  "foldl (asciiRow pixels) a ys = a @ concat (map (rowText pixels) ys)"
  by (induction ys arbitrary: a) (simp_all add: asciiRow_eq rowText_def)

lemma asciiFromPixels_eq:
  "asciiFromPixels pixels = concat (map (rowText pixels) [0..<asciiHeight])"
  by (simp add: asciiFromPixels_def foldl_asciiRow)

lemma luminosity_mono:
  assumes "0 \<le> r" "r \<le> r'" "0 \<le> g" "g \<le> g'" "0 \<le> b" "b \<le> b'"
  shows "luminosity r g b \<le> luminosity r' g' b'"
  unfolding luminosity_def using assms
  by (intro jsAdd_mono jsMul_mono jsAdd_nonneg jsMul_nonneg jsLit_nonneg) simp_all

lemma luminosity_white: "luminosity 255 255 255 = 255"
  by code_simp

lemma luminosity_black: "luminosity 0 0 0 = 0"
  by code_simp

lemma luminosity_bounds:
  assumes "0 \<le> r" "r \<le> 255" "0 \<le> g" "g \<le> 255" "0 \<le> b" "b \<le> 255"
  shows "0 \<le> luminosity r g b" "luminosity r g b \<le> 255"
proof -
  show "0 \<le> luminosity r g b"
    unfolding luminosity_def using assms
    by (intro jsAdd_nonneg jsMul_nonneg jsLit_nonneg) simp_all
  have "luminosity r g b \<le> luminosity 255 255 255"
    using assms by (intro luminosity_mono)
  then show "luminosity r g b \<le> 255"
    by (simp only: luminosity_white)
qed

lemma unat8_bounds: "0 \<le> (of_nat (unat (w :: 8 word)) :: number)" "(of_nat (unat (w :: 8 word)) :: number) \<le> 255"
proof -
  show "0 \<le> (of_nat (unat w) :: number)" by (rule of_nat_0_le_iff)
  have "unat w < 2 ^ LENGTH(8)" by (rule unsigned_less)
  then have "unat w < 256" by simp
  then have "unat w \<le> 255" by simp
  then show "(of_nat (unat w) :: number) \<le> 255" 
    by (metis of_nat_le_iff of_nat_numeral)
qed

lemma length_asciiChars: "length asciiChars = 70"
  by (simp add: asciiChars_def)

lemma charIndexOf_mono:
  assumes "0 \<le> b1" "b1 \<le> b2"
  shows "charIndexOf b1 \<le> charIndexOf b2"
proof -
  have n: "(0::real) \<le> jsSub (of_nat (length asciiChars)) 1"
    by (simp add: jsSub_def rnd_nonneg length_asciiChars)
  show ?thesis
    unfolding charIndexOf_def using assms n
    by (intro floor_mono jsMul_mono jsDiv_mono jsDiv_nonneg) simp_all
qed

lemma charIndexOf_ends: "charIndexOf 0 = 0" "charIndexOf 255 = 69"
  by code_simp+

text \<open>
  The rounding shows in the result. The exact luminosity of the colour (6, 140, 9) is 85,
  which would give the index 23; the rounded sum lies just below 85 and gives 22.
\<close>

lemma luminosity_rounding_example:
  "luminosity 6 140 9 = 5981343255101439 / 2 ^ 46"
  by code_simp

lemma charIndexOf_rounding_example:
  "luminosity 6 140 9 < 85" "charIndexOf (luminosity 6 140 9) = 22"
  unfolding luminosity_rounding_example by code_simp+

lemma charIndexOf_range:
  assumes "0 \<le> br" "br \<le> 255"
  shows "0 \<le> charIndexOf br" "charIndexOf br \<le> 69"
proof -
  have "charIndexOf 0 \<le> charIndexOf br"
    using assms(1) by (intro charIndexOf_mono) simp_all
  then show "0 \<le> charIndexOf br" by (simp only: charIndexOf_ends)
  have "charIndexOf br \<le> charIndexOf 255"
    using assms by (intro charIndexOf_mono)
  then show "charIndexOf br \<le> 69" by (simp only: charIndexOf_ends)
qed

lemma asciiChars_single: "g \<in> set asciiChars \<Longrightarrow> length g = 1"
  by (auto simp: asciiChars_def)

lemma asciiChars_no_newline: "g \<in> set asciiChars \<Longrightarrow> CHR 0x0A \<notin> set g"
  by (auto simp: asciiChars_def)

lemma offset_in_range:
  assumes "length pixels = asciiWidth * asciiHeight * 4" "y < asciiHeight" "x < asciiWidth"
  shows "(y * asciiWidth + x) * 4 + 3 < length pixels"
  using assms by (simp add: asciiWidth_def asciiHeight_def)

lemma asciiCell_in_range:
  assumes "length pixels = asciiWidth * asciiHeight * 4" "y < asciiHeight" "x < asciiWidth"
  shows "asciiCell pixels y x =
           (if pixels ! ((y * asciiWidth + x) * 4 + 3) < 128 then '' ''
            else asciiChars ! nat (charIndexOf
                   (luminosity (of_nat (unat (pixels ! ((y * asciiWidth + x) * 4))))
                               (of_nat (unat (pixels ! ((y * asciiWidth + x) * 4 + 1))))
                               (of_nat (unat (pixels ! ((y * asciiWidth + x) * 4 + 2)))))))"
    (is "_ = (if _ then _ else asciiChars ! nat (charIndexOf ?br))")
  and "nat (charIndexOf
                   (luminosity (of_nat (unat (pixels ! ((y * asciiWidth + x) * 4))))
                               (of_nat (unat (pixels ! ((y * asciiWidth + x) * 4 + 1))))
                               (of_nat (unat (pixels ! ((y * asciiWidth + x) * 4 + 2)))))) < length asciiChars"
proof -
  have r: "(y * asciiWidth + x) * 4 + 3 < length pixels"
    using assms by (rule offset_in_range)
  have br: "0 \<le> ?br" "?br \<le> 255"
    by (rule luminosity_bounds; rule unat8_bounds)+
  have idx: "0 \<le> charIndexOf ?br" "charIndexOf ?br \<le> 69"
    using charIndexOf_range [OF br] by simp_all
  then show lt: "nat (charIndexOf ?br) < length asciiChars"
    by (simp add: length_asciiChars)
  show "asciiCell pixels y x = (if pixels ! ((y * asciiWidth + x) * 4 + 3) < 128 then '' ''
            else asciiChars ! nat (charIndexOf ?br))"
    using r idx lt
    by (simp add: asciiCell_def Let_def px_def luminosityOf_def charAt_def)
qed

lemma asciiCell_single:
  assumes "length pixels = asciiWidth * asciiHeight * 4" "y < asciiHeight" "x < asciiWidth"
  shows "asciiCell pixels y x \<in> set asciiChars"
proof -
  have sp: "'' '' \<in> set asciiChars" by (simp add: asciiChars_def)
  show ?thesis
    using asciiCell_in_range [OF assms] sp by (simp add: nth_mem del: One_nat_def)
qed

lemma length_concat_uniform:
  "(\<And>i. i < m \<Longrightarrow> length (f i) = n) \<Longrightarrow> length (concat (map f [0..<m])) = m * n"
  by (induction m) simp_all

lemma nth_concat_uniform:
  assumes "\<And>i. i < m \<Longrightarrow> length (f i) = n" "y < m" "k < n"
  shows "concat (map f [0..<m]) ! (y * n + k) = f y ! k"
  using assms
proof (induction m)
  case 0
  then show ?case by simp
next
  case (Suc m)
  have len: "length (concat (map f [0..<m])) = m * n"
    using Suc.prems(1) by (intro length_concat_uniform) simp
  show ?case
  proof (cases "y < m")
    case True
    then have "y * n + k < m * n"
      using Suc.prems(3)
      by (metis Suc_leI add.commute mult.commute mult_Suc_right mult_le_mono1 nat_add_left_cancel_less order_less_le_trans)
    moreover have "concat (map f [0..<m]) ! (y * n + k) = f y ! k"
      using Suc True by simp
    ultimately show ?thesis by (simp add: nth_append len)
  next
    case False
    then have "y = m" using Suc.prems(2) by simp
    then show ?thesis using Suc.prems by (simp add: nth_append len)
  qed
qed


lemma cells_text:
  assumes "length pixels = asciiWidth * asciiHeight * 4" "y < asciiHeight"
  shows "length (concat (map (asciiCell pixels y) [0..<asciiWidth])) = asciiWidth"
    and "x < asciiWidth \<Longrightarrow>
         [concat (map (asciiCell pixels y) [0..<asciiWidth]) ! x] = asciiCell pixels y x"
    and "CHR 0x0A \<notin> set (concat (map (asciiCell pixels y) [0..<asciiWidth]))"
proof -
  have one: "\<And>i. i < asciiWidth \<Longrightarrow> length (asciiCell pixels y i) = 1"
    using asciiCell_single [OF assms] asciiChars_single by blast
  show "length (concat (map (asciiCell pixels y) [0..<asciiWidth])) = asciiWidth"
    using length_concat_uniform [of asciiWidth "asciiCell pixels y" 1] one by simp
  show "CHR 0x0A \<notin> set (concat (map (asciiCell pixels y) [0..<asciiWidth]))"
    using asciiCell_single [OF assms] asciiChars_no_newline by auto
  assume x: "x < asciiWidth"
  have "concat (map (asciiCell pixels y) [0..<asciiWidth]) ! (x * 1 + 0) = asciiCell pixels y x ! 0"
    using one x by (intro nth_concat_uniform) simp_all
  moreover have "[asciiCell pixels y x ! 0] = asciiCell pixels y x"
    using one [OF x] by (cases "asciiCell pixels y x") simp_all
  ultimately show "[concat (map (asciiCell pixels y) [0..<asciiWidth]) ! x] = asciiCell pixels y x"
    by simp
qed

lemma rowText_props:
  assumes "length pixels = asciiWidth * asciiHeight * 4" "y < asciiHeight"
  shows "length (rowText pixels y) = asciiWidth + 1"
    and "x < asciiWidth \<Longrightarrow> [rowText pixels y ! x] = asciiCell pixels y x"
    and "rowText pixels y ! asciiWidth = CHR 0x0A"
    and "filter (\<lambda>c. c = CHR 0x0A) (rowText pixels y) = [CHR 0x0A]"
    and "length (filter (\<lambda>c. c \<noteq> CHR 0x0A) (rowText pixels y)) = asciiWidth"
proof -
  note c = cells_text [OF assms]
  show "length (rowText pixels y) = asciiWidth + 1"
    by (simp add: rowText_def c(1))
  show "x < asciiWidth \<Longrightarrow> [rowText pixels y ! x] = asciiCell pixels y x"
    using c(2) by (simp add: rowText_def nth_append c(1))
  show "rowText pixels y ! asciiWidth = CHR 0x0A"
    by (simp add: rowText_def nth_append c(1))
  have none: "filter (\<lambda>c. c = CHR 0x0A) (concat (map (asciiCell pixels y) [0..<asciiWidth])) = []"
    unfolding filter_empty_conv using c(3) by blast
  show "filter (\<lambda>c. c = CHR 0x0A) (rowText pixels y) = [CHR 0x0A]"
    using none by (simp add: rowText_def)
  have "filter (\<lambda>c. c \<noteq> CHR 0x0A) (concat (map (asciiCell pixels y) [0..<asciiWidth]))
        = concat (map (asciiCell pixels y) [0..<asciiWidth])"
    unfolding filter_id_conv using c(3) by blast
  then show "length (filter (\<lambda>c. c \<noteq> CHR 0x0A) (rowText pixels y)) = asciiWidth"
    by (simp add: rowText_def c(1))
qed

lemma length_filter_concat_uniform:
  "(\<And>i. i < m \<Longrightarrow> length (filter P (f i)) = n) \<Longrightarrow>
   length (filter P (concat (map f [0..<m]))) = m * n"
  by (induction m) simp_all

text \<open>
  C6. For a pixel buffer of the 60 by 40 grid, the text has exactly 40 * 60 = 2400
  characters that are not line feeds, each of them a glyph of the palette, and exactly one
  line feed per row, at the end of the row. The text is a function of the pixel buffer
  alone: two runs that read identical pixels give the identical text.
\<close>

theorem asciiArt_grid_shape:
  assumes "length pixels = asciiWidth * asciiHeight * 4"
  shows "length (filter (\<lambda>c. c \<noteq> CHR 0x0A) (asciiFromPixels pixels)) = asciiHeight * asciiWidth \<and>
         length (filter (\<lambda>c. c = CHR 0x0A) (asciiFromPixels pixels)) = asciiHeight \<and>
         length (asciiFromPixels pixels) = asciiHeight * (asciiWidth + 1) \<and>
         (\<forall>y<asciiHeight.
            asciiFromPixels pixels ! (y * (asciiWidth + 1) + asciiWidth) = CHR 0x0A \<and>
            (\<forall>x<asciiWidth. [asciiFromPixels pixels ! (y * (asciiWidth + 1) + x)] \<in> set asciiChars)) \<and>
         (loadImage env1 (proxyUrl env1 url1 ''200'') = Some img1 \<and> getContext2d env1 \<and>
          drawImage env1 img1 asciiWidth asciiHeight True = pixels \<and>
          loadImage env2 (proxyUrl env2 url2 ''200'') = Some img2 \<and> getContext2d env2 \<and>
          drawImage env2 img2 asciiWidth asciiHeight True = pixels \<longrightarrow>
          generateAsciiArt env1 url1 = asciiFromPixels pixels \<and>
          generateAsciiArt env2 url2 = generateAsciiArt env1 url1)"
proof (intro conjI allI impI)
  assume "loadImage env1 (proxyUrl env1 url1 ''200'') = Some img1 \<and> getContext2d env1 \<and>
          drawImage env1 img1 asciiWidth asciiHeight True = pixels \<and>
          loadImage env2 (proxyUrl env2 url2 ''200'') = Some img2 \<and> getContext2d env2 \<and>
          drawImage env2 img2 asciiWidth asciiHeight True = pixels"
  then show "generateAsciiArt env1 url1 = asciiFromPixels pixels"
    and "generateAsciiArt env2 url2 = generateAsciiArt env1 url1"
    by (simp_all add: generateAsciiArt_def)
next
  note r = rowText_props [OF assms]
  show "length (filter (\<lambda>c. c \<noteq> CHR 0x0A) (asciiFromPixels pixels)) = asciiHeight * asciiWidth"
    unfolding asciiFromPixels_eq by (rule length_filter_concat_uniform) (rule r(5))
  have "length (filter (\<lambda>c. c = CHR 0x0A) (asciiFromPixels pixels)) = asciiHeight * 1"
    unfolding asciiFromPixels_eq by (rule length_filter_concat_uniform) (simp add: r(4))
  then show "length (filter (\<lambda>c. c = CHR 0x0A) (asciiFromPixels pixels)) = asciiHeight"
    by simp
  show "length (asciiFromPixels pixels) = asciiHeight * (asciiWidth + 1)"
    unfolding asciiFromPixels_eq by (rule length_concat_uniform) (rule r(1))
  fix y assume y: "y < asciiHeight"
  have "asciiFromPixels pixels ! (y * (asciiWidth + 1) + asciiWidth) = rowText pixels y ! asciiWidth"
    unfolding asciiFromPixels_eq using y by (intro nth_concat_uniform r(1)) simp_all
  then show "asciiFromPixels pixels ! (y * (asciiWidth + 1) + asciiWidth) = CHR 0x0A"
    by (simp add: r(3) [OF y])
  fix x assume x: "x < asciiWidth"
  have "asciiFromPixels pixels ! (y * (asciiWidth + 1) + x) = rowText pixels y ! x"
    unfolding asciiFromPixels_eq using y x by (intro nth_concat_uniform r(1)) simp_all
  then have "[asciiFromPixels pixels ! (y * (asciiWidth + 1) + x)] = asciiCell pixels y x"
    using r(2) [OF y x] by simp
  then show "[asciiFromPixels pixels ! (y * (asciiWidth + 1) + x)] \<in> set asciiChars"
    using asciiCell_single [OF assms y x] by simp
qed

theorem asciiArt_grid_shape_witness:
  "length whitePixels = asciiWidth * asciiHeight * 4 \<and>
   length (filter (\<lambda>c. c \<noteq> CHR 0x0A) (asciiFromPixels whitePixels)) = 2400 \<and>
   length (filter (\<lambda>c. c = CHR 0x0A) (asciiFromPixels whitePixels)) = 40 \<and>
   length (asciiFromPixels whitePixels) = 2440 \<and>
   (0::nat) < asciiHeight \<and> (0::nat) < asciiWidth \<and>
   asciiFromPixels whitePixels ! 60 = CHR 0x0A \<and>
   [asciiFromPixels whitePixels ! 0] \<in> set asciiChars \<and>
   loadImage (stillBrowser whitePixels) (proxyUrl (stillBrowser whitePixels) ''a.png'' ''200'')
     = Some () \<and>
   getContext2d (stillBrowser whitePixels) \<and>
   drawImage (stillBrowser whitePixels) () asciiWidth asciiHeight True = whitePixels \<and>
   generateAsciiArt (stillBrowser whitePixels) ''a.png'' = asciiFromPixels whitePixels \<and>
   generateAsciiArt (stillBrowser whitePixels) ''b.png''
     = generateAsciiArt (stillBrowser whitePixels) ''a.png''"
proof -
  have len: "length whitePixels = asciiWidth * asciiHeight * 4"
    by (simp add: whitePixels_def asciiWidth_def asciiHeight_def)
  have env: "loadImage (stillBrowser whitePixels)
               (proxyUrl (stillBrowser whitePixels) u ''200'') = Some ()"
      "getContext2d (stillBrowser whitePixels)"
      "drawImage (stillBrowser whitePixels) () asciiWidth asciiHeight True = whitePixels" for u
    by (simp_all add: stillBrowser_def)
  have pos: "0 < asciiHeight" "0 < asciiWidth"
    by (simp_all add: asciiWidth_def asciiHeight_def)
  note shape = asciiArt_grid_shape
      [OF len, of "stillBrowser whitePixels" "''a.png''" "()" "stillBrowser whitePixels"
         "''b.png''" "()"]
  from shape pos
  have "asciiFromPixels whitePixels ! (0 * (asciiWidth + 1) + asciiWidth) = CHR 0x0A"
    by blast
  moreover from shape pos
  have "[asciiFromPixels whitePixels ! (0 * (asciiWidth + 1) + 0)] \<in> set asciiChars"
    by blast
  ultimately show ?thesis
    using shape len env by (simp add: asciiWidth_def asciiHeight_def)
qed

text \<open>
  C4. In the text of a 60 by 40 pixel buffer, the character of cell \<open>(x, y)\<close> is a space
  when the alpha of the cell is below 128, whatever its colour; otherwise it is the glyph
  at index \<open>floor (brightness / 255 * (N - 1))\<close> of the palette of \<open>N = 70\<close> glyphs,
  where the brightness is the luminosity of the cell and the arithmetic is that of the
  code, rounded at every step; that index lies inside the palette. The palette runs from
  the glyph for brightness 0 (the blank, index 0) to the glyph for brightness 255 (the
  dollar sign, index \<open>N - 1\<close>), and the index never decreases when the brightness
  grows.
\<close>

theorem asciiArt_cell_glyph:
  assumes "length pixels = asciiWidth * asciiHeight * 4" "y < asciiHeight" "x < asciiWidth"
  shows "[asciiFromPixels pixels ! (y * (asciiWidth + 1) + x)] =
           (if pixels ! ((y * asciiWidth + x) * 4 + 3) < 128 then '' ''
            else asciiChars !
                   nat (charIndexOf
                     (luminosity (of_nat (unat (pixels ! ((y * asciiWidth + x) * 4))))
                                 (of_nat (unat (pixels ! ((y * asciiWidth + x) * 4 + 1))))
                                 (of_nat (unat (pixels ! ((y * asciiWidth + x) * 4 + 2))))))) \<and>
         nat (charIndexOf
                (luminosity (of_nat (unat (pixels ! ((y * asciiWidth + x) * 4))))
                            (of_nat (unat (pixels ! ((y * asciiWidth + x) * 4 + 1))))
                            (of_nat (unat (pixels ! ((y * asciiWidth + x) * 4 + 2))))))
           < length asciiChars \<and>
         charIndexOf brightness =
           \<lfloor>jsMul (jsDiv brightness 255) (jsSub (of_nat (length asciiChars)) 1)\<rfloor> \<and>
         asciiChars ! nat (charIndexOf 0) = '' '' \<and>
         asciiChars ! nat (charIndexOf 255) = ''$'' \<and>
         nat (charIndexOf 255) = length asciiChars - 1 \<and>
         (0 \<le> b1 \<and> b1 \<le> b2 \<longrightarrow> charIndexOf b1 \<le> charIndexOf b2)"
proof (intro conjI impI)
  have "asciiFromPixels pixels ! (y * (asciiWidth + 1) + x) = rowText pixels y ! x"
    unfolding asciiFromPixels_eq using assms
    by (intro nth_concat_uniform rowText_props(1)) simp_all
  then have "[asciiFromPixels pixels ! (y * (asciiWidth + 1) + x)] = asciiCell pixels y x"
    using rowText_props(2) [OF assms] by simp
  then show "[asciiFromPixels pixels ! (y * (asciiWidth + 1) + x)] =
           (if pixels ! ((y * asciiWidth + x) * 4 + 3) < 128 then '' ''
            else asciiChars !
                   nat (charIndexOf
                     (luminosity (of_nat (unat (pixels ! ((y * asciiWidth + x) * 4))))
                                 (of_nat (unat (pixels ! ((y * asciiWidth + x) * 4 + 1))))
                                 (of_nat (unat (pixels ! ((y * asciiWidth + x) * 4 + 2)))))))"
    using asciiCell_in_range(1) [OF assms] by simp
  show "nat (charIndexOf
                (luminosity (of_nat (unat (pixels ! ((y * asciiWidth + x) * 4))))
                            (of_nat (unat (pixels ! ((y * asciiWidth + x) * 4 + 1))))
                            (of_nat (unat (pixels ! ((y * asciiWidth + x) * 4 + 2))))))
           < length asciiChars"
    using assms by (rule asciiCell_in_range(2))
  show "charIndexOf brightness =
           \<lfloor>jsMul (jsDiv brightness 255) (jsSub (of_nat (length asciiChars)) 1)\<rfloor>"
    by (rule charIndexOf_def)
  show "asciiChars ! nat (charIndexOf 0) = '' ''"
    by (simp add: charIndexOf_ends asciiChars_def)
  show "asciiChars ! nat (charIndexOf 255) = ''$''"
    by (simp add: charIndexOf_ends asciiChars_def)
  show "nat (charIndexOf 255) = length asciiChars - 1"
    by (simp add: charIndexOf_ends length_asciiChars)
  assume "0 \<le> b1 \<and> b1 \<le> b2"
  then show "charIndexOf b1 \<le> charIndexOf b2"
    by (intro charIndexOf_mono) simp_all
qed

lemma whitePixels_nth: "i < 9600 \<Longrightarrow> whitePixels ! i = 255"
  by (simp add: whitePixels_def)

lemma clearPixels_nth: "i < 9600 \<Longrightarrow> clearPixels ! i = 0"
  by (simp add: clearPixels_def)

theorem asciiArt_cell_glyph_witness:
  "length whitePixels = asciiWidth * asciiHeight * 4 \<and>
   (39::nat) < asciiHeight \<and> (59::nat) < asciiWidth \<and>
   [asciiFromPixels whitePixels ! (39 * (asciiWidth + 1) + 59)] = ''$'' \<and>
   length clearPixels = asciiWidth * asciiHeight * 4 \<and>
   [asciiFromPixels clearPixels ! (39 * (asciiWidth + 1) + 59)] = '' '' \<and>
   (0 :: number) \<le> 10 \<and> (10 :: number) \<le> 200 \<and> charIndexOf 10 \<le> charIndexOf 200"
  using asciiArt_cell_glyph [of whitePixels 39 59 0 10 200]
        asciiArt_cell_glyph [of clearPixels 39 59 0 10 200]
  by (simp add: asciiWidth_def asciiHeight_def whitePixels_nth clearPixels_nth luminosity_white
        charIndexOf_ends length_asciiChars whitePixels_def [THEN arg_cong, of length]
        clearPixels_def [THEN arg_cong, of length])

subsection \<open>Luminosity\<close>

text \<open>
  C5. For channels between 0 and 255 the luminosity
  \<open>0.299 * R + 0.587 * G + 0.114 * B\<close>, computed as the code computes it with every
  product and sum rounded, lies between 0 and 255, and it does not decrease when one of
  the three channels grows.
\<close>

theorem luminosity_range_monotone:
  assumes "0 \<le> r" "r \<le> 255" "0 \<le> g" "g \<le> 255" "0 \<le> b" "b \<le> 255"
  shows "0 \<le> luminosity r g b \<and> luminosity r g b \<le> 255 \<and>
         (r \<le> r' \<longrightarrow> luminosity r g b \<le> luminosity r' g b) \<and>
         (g \<le> g' \<longrightarrow> luminosity r g b \<le> luminosity r g' b) \<and>
         (b \<le> b' \<longrightarrow> luminosity r g b \<le> luminosity r g b')"
proof (intro conjI impI)
  show "0 \<le> luminosity r g b" "luminosity r g b \<le> 255"
    using assms by (rule luminosity_bounds)+
  show "luminosity r g b \<le> luminosity r' g b" if "r \<le> r'"
    using assms that by (intro luminosity_mono) simp_all
  show "luminosity r g b \<le> luminosity r g' b" if "g \<le> g'"
    using assms that by (intro luminosity_mono) simp_all
  show "luminosity r g b \<le> luminosity r g b'" if "b \<le> b'"
    using assms that by (intro luminosity_mono) simp_all
qed

theorem luminosity_range_monotone_witness:
  "(0::number) \<le> 10 \<and> (10::number) \<le> 255 \<and> (0::number) \<le> 20 \<and> (20::number) \<le> 255 \<and>
   (0::number) \<le> 30 \<and> (30::number) \<le> 255 \<and>
   0 \<le> luminosity 10 20 30 \<and> luminosity 10 20 30 \<le> 255 \<and>
   (10::number) \<le> 11 \<and> luminosity 10 20 30 \<le> luminosity 11 20 30 \<and>
   (20::number) \<le> 21 \<and> luminosity 10 20 30 \<le> luminosity 10 21 30 \<and>
   (30::number) \<le> 31 \<and> luminosity 10 20 30 \<le> luminosity 10 20 31"
  using luminosity_range_monotone [of 10 20 30 11 21 31]
  by simp

subsection \<open>The grayscale transform\<close>

lemma length_grayscaleStep [simp]: "length (grayscaleStep data i) = length data"
  by (simp add: grayscaleStep_def Let_def)


lemma grayscaleStep_nth:
  assumes "j < length data"
  shows "grayscaleStep data i ! j =
           (if j = i \<or> j = i + 1 \<or> j = i + 2 then grayAt data i else data ! j)"
  using assms by (auto simp: grayscaleStep_def Let_def grayAt_def nth_list_update)

lemma px_grayscaleStep:
  assumes "i + 3 \<le> j"
  shows "px (grayscaleStep data i) j = px data j"
  using assms by (simp add: px_def grayscaleStep_nth)

lemma grayAt_grayscaleStep:
  assumes "i + 4 \<le> k"
  shows "grayAt (grayscaleStep data i) k = grayAt data k"
  using assms by (simp add: grayAt_def px_grayscaleStep)

lemma grayscaleLoop_unfold:
  "i < length data \<Longrightarrow> grayscaleLoop i data = grayscaleLoop (i + 4) (grayscaleStep data i)"
  "\<not> i < length data \<Longrightarrow> grayscaleLoop i data = data"
  by (subst grayscaleLoop.simps, simp)+


lemma grayscaleLoop_inv:
  assumes "i mod 4 = 0"
  shows "length (grayscaleLoop i data) = length data \<and>
         (\<forall>j<length data. j < i \<or> j mod 4 = 3 \<longrightarrow> grayscaleLoop i data ! j = data ! j) \<and>
         (\<forall>b c. b mod 4 = 0 \<and> i \<le> b \<and> c < 3 \<and> b + c < length data \<longrightarrow>
              grayscaleLoop i data ! (b + c) = grayAt data b)"
  using assms
proof (induction i data rule: grayscaleLoop.induct)
  case (1 i data)
  note m = "1.prems"
  show ?case
  proof (cases "i < length data")
    case False
    then have "grayscaleLoop i data = data" by (rule grayscaleLoop_unfold(2))
    moreover have "\<not> (i \<le> b \<and> b + c < length data)" for b c
      using False by arith
    ultimately show ?thesis by auto
  next
    case lt: True
    let ?d = "grayscaleStep data i"
    have step: "grayscaleLoop i data = grayscaleLoop (i + 4) ?d"
      using lt by (rule grayscaleLoop_unfold(1))
    have m4: "(i + 4) mod 4 = 0" using m by simp
    note ih = "1.IH" [OF lt m4]
    have ih_len: "length (grayscaleLoop (i + 4) ?d) = length data"
      using ih by simp
    have ih_keep: "grayscaleLoop (i + 4) ?d ! j = ?d ! j"
      if "j < length data" "j < i + 4 \<or> j mod 4 = 3" for j
      using ih [THEN conjunct2, THEN conjunct1, rule_format, of j] that by simp
    have ih_gray: "grayscaleLoop (i + 4) ?d ! (b + c) = grayAt ?d b"
      if "b mod 4 = 0" "i + 4 \<le> b" "c < 3" "b + c < length data" for b c
      using ih [THEN conjunct2, THEN conjunct2, rule_format, of b c] that by simp
    show ?thesis
    proof (intro conjI allI impI)
      show "length (grayscaleLoop i data) = length data"
        by (simp only: step ih_len)
    next
      fix j assume j: "j < length data" "j < i \<or> j mod 4 = 3"
      have notw: "j \<noteq> i \<and> j \<noteq> i + 1 \<and> j \<noteq> i + 2"
        using j(2) m by arith
      have c: "j < i + 4 \<or> j mod 4 = 3" using j(2) by arith
      have "grayscaleLoop i data ! j = grayscaleLoop (i + 4) ?d ! j"
        by (simp only: step)
      also have "\<dots> = ?d ! j"
        using j(1) c by (rule ih_keep)
      also have "\<dots> = data ! j"
        using j(1) notw by (simp add: grayscaleStep_nth)
      finally show "grayscaleLoop i data ! j = data ! j" .
    next
      fix b c assume "b mod 4 = 0 \<and> i \<le> b \<and> c < 3 \<and> b + c < length data"
      then have b: "b mod 4 = 0" "i \<le> b" "c < 3" "b + c < length data" by simp_all
      show "grayscaleLoop i data ! (b + c) = grayAt data b"
      proof (cases "b < i + 4")
        case True
        have bi: "b = i" using b(1,2) True m by arith
        have w: "b + c = i \<or> b + c = i + 1 \<or> b + c = i + 2"
          using b(3) bi by arith
        have c4: "b + c < i + 4 \<or> (b + c) mod 4 = 3" using b(3) bi by simp
        have "grayscaleLoop i data ! (b + c) = grayscaleLoop (i + 4) ?d ! (b + c)"
          by (simp only: step)
        also have "\<dots> = ?d ! (b + c)"
          using b(4) c4 by (rule ih_keep)
        also have "\<dots> = grayAt data i"
          using b(4) w by (simp only: grayscaleStep_nth if_True)
        finally show ?thesis by (simp only: bi)
      next
        case False
        then have ge: "i + 4 \<le> b" by simp
        have "grayscaleLoop i data ! (b + c) = grayscaleLoop (i + 4) ?d ! (b + c)"
          by (simp only: step)
        also have "\<dots> = grayAt ?d b"
          using b(1) ge b(3,4) by (rule ih_gray)
        also have "\<dots> = grayAt data b"
          using ge by (rule grayAt_grayscaleStep)
        finally show ?thesis .
      qed
    qed
  qed
qed


lemma grayAt_complete:
  assumes "i + 2 < length data"
  shows "grayAt data i =
           toUint8Clamp (Some (luminosity (of_nat (unat (data ! i))) (of_nat (unat (data ! (i + 1))))
                                          (of_nat (unat (data ! (i + 2))))))"
  using assms by (simp add: grayAt_def px_def luminosityOf_def)

text \<open>
  C10. The grayscale loop leaves the length of the buffer and every alpha component (the
  indices 3, 7, 11, ...) as they were, and sets the red, green and blue components of
  each pixel to one value: the luminosity of the pixel's original colour, stored as a
  clamped byte. This buffer is what the transform encodes.
\<close>

theorem grayscale_keeps_alpha:
  "length (grayscaleLoop 0 data) = length data \<and>
   (\<forall>j<length data. j mod 4 = 3 \<longrightarrow> grayscaleLoop 0 data ! j = data ! j) \<and>
   (\<forall>k c. 4 * k + 3 < length data \<and> c < 3 \<longrightarrow>
      grayscaleLoop 0 data ! (4 * k + c) =
        toUint8Clamp (Some (luminosity (of_nat (unat (data ! (4 * k))))
                                       (of_nat (unat (data ! (4 * k + 1))))
                                       (of_nat (unat (data ! (4 * k + 2))))))) \<and>
   (loadImage env (proxyUrl env imageUrl ''256'') = Some img \<and> getContext2d env \<and>
    drawImage env img 256 256 True = data \<longrightarrow>
    generateGrayscaleArt env imageUrl = toDataURL env 256 256 (grayscaleLoop 0 data))"
proof (intro conjI allI impI)
  have z: "(0::nat) mod 4 = 0" by simp
  note inv = grayscaleLoop_inv [OF z, of data]
  show "length (grayscaleLoop 0 data) = length data" using inv by simp
  show "grayscaleLoop 0 data ! j = data ! j" if "j < length data" "j mod 4 = 3" for j
    using inv [THEN conjunct2, THEN conjunct1, rule_format, of j] that by simp
  show "grayscaleLoop 0 data ! (4 * k + c) =
        toUint8Clamp (Some (luminosity (of_nat (unat (data ! (4 * k))))
                                       (of_nat (unat (data ! (4 * k + 1))))
                                       (of_nat (unat (data ! (4 * k + 2))))))"
    if "4 * k + 3 < length data \<and> c < 3" for k c
  proof -
    have "grayscaleLoop 0 data ! (4 * k + c) = grayAt data (4 * k)"
      using inv [THEN conjunct2, THEN conjunct2, rule_format, of "4 * k" c] that by simp
    moreover have "4 * k + 2 < length data" using that by simp
    ultimately show ?thesis by (simp only: grayAt_complete)
  qed
  show "generateGrayscaleArt env imageUrl = toDataURL env 256 256 (grayscaleLoop 0 data)"
    if "loadImage env (proxyUrl env imageUrl ''256'') = Some img \<and> getContext2d env \<and>
        drawImage env img 256 256 True = data"
    using that by (simp add: generateGrayscaleArt_def)
qed

theorem grayscale_keeps_alpha_witness:
  "length (grayscaleLoop 0 twoPixels) = 8 \<and>
   (3::nat) < length twoPixels \<and> (3::nat) mod 4 = 3 \<and> grayscaleLoop 0 twoPixels ! 3 = 200 \<and>
   4 * 0 + 3 < length twoPixels \<and> (1::nat) < 3 \<and>
   grayscaleLoop 0 twoPixels ! 1 = 18 \<and>
   loadImage (stillBrowser twoPixels) (proxyUrl (stillBrowser twoPixels) ''a.png'' ''256'') = Some () \<and>
   getContext2d (stillBrowser twoPixels) \<and>
   drawImage (stillBrowser twoPixels) () 256 256 True = twoPixels \<and>
   generateGrayscaleArt (stillBrowser twoPixels) ''a.png''
     = toDataURL (stillBrowser twoPixels) 256 256 (grayscaleLoop 0 twoPixels)"
proof -
  note t = grayscale_keeps_alpha [of twoPixels "stillBrowser twoPixels" "''a.png''" "()"]
  have len: "length twoPixels = 8" by (simp add: twoPixels_def)
  have a: "grayscaleLoop 0 twoPixels ! 3 = twoPixels ! 3"
    using t [THEN conjunct2, THEN conjunct1, rule_format, of 3] len by simp
  have g: "grayscaleLoop 0 twoPixels ! (4 * 0 + 1) =
        toUint8Clamp (Some (luminosity (of_nat (unat (twoPixels ! (4 * 0))))
                                       (of_nat (unat (twoPixels ! (4 * 0 + 1))))
                                       (of_nat (unat (twoPixels ! (4 * 0 + 2))))))"
    using t [THEN conjunct2, THEN conjunct2, THEN conjunct1, rule_format, of 0 1] len by simp
  have v: "toUint8Clamp (Some (luminosity 10 20 30)) = 18"
    by code_simp
  have env: "loadImage (stillBrowser twoPixels) (proxyUrl (stillBrowser twoPixels) ''a.png'' ''256'') = Some ()"
    "getContext2d (stillBrowser twoPixels)"
    "drawImage (stillBrowser twoPixels) () 256 256 True = twoPixels"
    by (simp_all add: stillBrowser_def)
  show ?thesis
    using t a g v env len by (simp add: twoPixels_def)
qed

subsection \<open>User name normalisation\<close>

lemma length_trim_le: "length (trim s) \<le> length s"
  unfolding trim_def
  by (metis length_dropWhile_le length_rev le_trans)

lemma dropWhile_last_keeps:
  assumes "\<not> P y"
  shows "\<exists>zs. rev (dropWhile P (rev (y # ys))) = y # zs"
proof -
  have "dropWhile P (rev ys @ [y]) =
        (if \<forall>x\<in>set (rev ys). P x then [y] else dropWhile P (rev ys) @ [y])"
    using assms by (simp add: dropWhile_append)
  then have "rev (dropWhile P (rev (y # ys))) =
        (if \<forall>x\<in>set (rev ys). P x then [y] else y # rev (dropWhile P (rev ys)))"
    by simp
  then show ?thesis by (cases "\<forall>x\<in>set (rev ys). P x") simp_all
qed

lemma trim_no_leading_ws: "trim s = [] \<or> \<not> isWhiteSpace (hd (trim s))"
proof (cases "dropWhile isWhiteSpace s")
  case Nil
  show ?thesis unfolding trim_def Nil by simp
next
  case (Cons y ys)
  then have "\<not> isWhiteSpace y"
    by (metis hd_dropWhile list.sel(1) list.distinct(1))
  then obtain zs where "rev (dropWhile isWhiteSpace (rev (y # ys))) = y # zs"
    using dropWhile_last_keeps [of isWhiteSpace y ys] by blast
  with Cons \<open>\<not> isWhiteSpace y\<close> show ?thesis
    by (simp add: trim_def)
qed

lemma trim_idem: "trim (trim s) = trim s"
proof -
  have lead: "dropWhile isWhiteSpace (trim s) = trim s"
    using trim_no_leading_ws [of s] by (cases "trim s") auto
  have "trim (trim s) = rev (dropWhile isWhiteSpace (rev (trim s)))"
    by (simp add: trim_def [of "trim s"] lead)
  also have "\<dots> = trim s"
    by (simp add: trim_def)
  finally show ?thesis .
qed

lemma getCleanUsername_twice_same:
  assumes "\<not> startsWithAt (getCleanUsername s)"
  shows "getCleanUsername (getCleanUsername s) = getCleanUsername s"
proof -
  have "replaceLeadingAt (getCleanUsername s) = getCleanUsername s"
    using assms by (auto simp: startsWithAt_def replaceLeadingAt_def split: list.splits)
  then have "getCleanUsername (getCleanUsername s) = trim (getCleanUsername s)"
    by (simp add: getCleanUsername_def)
  also have "\<dots> = getCleanUsername s"
    by (simp add: getCleanUsername_def trim_idem)
  finally show ?thesis .
qed

lemma getCleanUsername_twice_shorter:
  assumes "startsWithAt (getCleanUsername s)"
  shows "length (getCleanUsername (getCleanUsername s)) < length (getCleanUsername s)"
proof -
  obtain cs where t: "getCleanUsername s = 0x40 # cs"
    using assms by (auto simp: startsWithAt_def split: list.splits)
  have "getCleanUsername (0x40 # cs) = trim cs"
    by (simp add: getCleanUsername_def replaceLeadingAt_def)
  then have "length (getCleanUsername (getCleanUsername s)) \<le> length cs"
    using length_trim_le [of cs] by (simp add: t)
  then show ?thesis by (simp add: t)
qed


lemma getCleanUsername_doubleAt: "getCleanUsername doubleAt = jsstr ''@octocat''"
  by (simp add: doubleAt_def getCleanUsername_def jsstr_def replaceLeadingAt_def trim_def
        isWhiteSpace_def)

lemma getCleanUsername_atName:  "getCleanUsername (jsstr ''@octocat'') = jsstr ''octocat''"
  by (simp add: getCleanUsername_def jsstr_def replaceLeadingAt_def trim_def isWhiteSpace_def)

lemma getCleanUsername_spacedName: "getCleanUsername spacedName = jsstr ''octocat''"
  by (simp add: spacedName_def getCleanUsername_def jsstr_def replaceLeadingAt_def trim_def
        isWhiteSpace_def)

text \<open>
  C9, as stated, fails: normalising \<open>@@octocat\<close> gives \<open>@octocat\<close>, and normalising
  that again gives \<open>octocat\<close>; the two profile requests differ as well.
\<close>

theorem getCleanUsername_not_idempotent:
  "getCleanUsername (getCleanUsername doubleAt) \<noteq> getCleanUsername doubleAt \<and>
   fetchGitHubUserRequest (getCleanUsername doubleAt) \<noteq> fetchGitHubUserRequest doubleAt"
  by (simp add: getCleanUsername_doubleAt getCleanUsername_atName fetchGitHubUserRequest_def
        Let_def) (simp add: jsstr_def)

text \<open>
  C9, amended. Normalising twice gives the same name, and the same profile request, as
  normalising once for every input whose normalised name does not itself begin with
  \<open>@\<close>; for every other input the second normalisation gives a different, shorter
  name.
\<close>

theorem getCleanUsername_idempotent_unless_at:
  "(\<not> startsWithAt (getCleanUsername s) \<longrightarrow>
      getCleanUsername (getCleanUsername s) = getCleanUsername s \<and>
      fetchGitHubUserRequest (getCleanUsername s) = fetchGitHubUserRequest s) \<and>
   (startsWithAt (getCleanUsername t) \<longrightarrow>
      getCleanUsername (getCleanUsername t) \<noteq> getCleanUsername t)"
proof (intro conjI impI)
  assume a: "\<not> startsWithAt (getCleanUsername s)"
  then show same: "getCleanUsername (getCleanUsername s) = getCleanUsername s"
    by (rule getCleanUsername_twice_same)
  then show "fetchGitHubUserRequest (getCleanUsername s) = fetchGitHubUserRequest s"
    by (simp add: fetchGitHubUserRequest_def)
next
  assume "startsWithAt (getCleanUsername t)"
  then have "length (getCleanUsername (getCleanUsername t)) < length (getCleanUsername t)"
    by (rule getCleanUsername_twice_shorter)
  then show "getCleanUsername (getCleanUsername t) \<noteq> getCleanUsername t"
    by auto
qed

theorem getCleanUsername_idempotent_unless_at_witness:
  "\<not> startsWithAt (getCleanUsername spacedName) \<and>
   getCleanUsername (getCleanUsername spacedName) = getCleanUsername spacedName \<and>
   fetchGitHubUserRequest (getCleanUsername spacedName) = fetchGitHubUserRequest spacedName \<and>
   fetchGitHubUserRequest spacedName = Inr (jsstr ''https://api.github.com/users/octocat'') \<and>
   startsWithAt (getCleanUsername doubleAt) \<and>
   getCleanUsername (getCleanUsername doubleAt) \<noteq> getCleanUsername doubleAt"
proof -
  have a: "\<not> startsWithAt (getCleanUsername spacedName)"
    by (simp add: getCleanUsername_spacedName) (simp add: startsWithAt_def jsstr_def)
  have b: "startsWithAt (getCleanUsername doubleAt)"
    by (simp add: getCleanUsername_doubleAt) (simp add: startsWithAt_def jsstr_def)
  have c: "fetchGitHubUserRequest spacedName = Inr (jsstr ''https://api.github.com/users/octocat'')"
    by (simp add: fetchGitHubUserRequest_def getCleanUsername_spacedName Let_def)
       (simp add: jsstr_def)
  show ?thesis
    using getCleanUsername_idempotent_unless_at [of spacedName doubleAt] a b c by simp
qed

subsection \<open>Failure to load the avatar\<close>

text \<open>
  C8. When the avatar image does not load (\<open>onerror\<close>), each of the four transforms
  resolves to the empty string; the transforms are total, none of them raises. The banner
  then goes on without an art column, whatever art type is selected.
\<close>

theorem avatar_load_failure_gives_empty_art:
  "(loadImage env (proxyUrl env imageUrl ''200'') = None \<longrightarrow>
      generateAsciiArt env imageUrl = [] \<and> generatePixelArt env imageUrl = []) \<and>
   (loadImage env (proxyUrl env imageUrl ''256'') = None \<longrightarrow>
      generateGrayscaleArt env imageUrl = [] \<and> generateColorArt env imageUrl = []) \<and>
   (loadImage env (proxyUrl env (avatar_url user) ''200'') = None \<and>
    loadImage env (proxyUrl env (avatar_url user) ''256'') = None \<longrightarrow>
      loadArt env user =
        \<lparr>asciiArt = [], pixelArtData = [], grayscaleArtData = [], colorArtData = []\<rparr> \<and>
      artColumns artType (loadArt env user) = [])"
  by (simp add: generateAsciiArt_def generatePixelArt_def generateGrayscaleArt_def
        generateColorArt_def loadArt_def artColumns_def)

theorem avatar_load_failure_gives_empty_art_witness:
  "loadImage failingBrowser (proxyUrl failingBrowser ''a.png'' ''200'') = None \<and>
   generateAsciiArt failingBrowser ''a.png'' = [] \<and>
   generatePixelArt failingBrowser ''a.png'' = [] \<and>
   loadImage failingBrowser (proxyUrl failingBrowser ''a.png'' ''256'') = None \<and>
   generateGrayscaleArt failingBrowser ''a.png'' = [] \<and>
   generateColorArt failingBrowser ''a.png'' = [] \<and>
   loadImage failingBrowser (proxyUrl failingBrowser (avatar_url (profileOf 1)) ''200'') = None \<and>
   loadImage failingBrowser (proxyUrl failingBrowser (avatar_url (profileOf 1)) ''256'') = None \<and>
   artColumns ascii (loadArt failingBrowser (profileOf 1)) = []"
proof -
  have l: "loadImage failingBrowser u = None" for u
    by (simp add: failingBrowser_def)
  show ?thesis
    using avatar_load_failure_gives_empty_art
      [of failingBrowser "''a.png''" "profileOf 1" ascii] l
    by (simp add: artColumns_def)
qed

subsection \<open>The contribution graph\<close>

lemma foldl_days:
  assumes "\<forall>d\<in>set ds. d < length days"
  shows "foldl (\<lambda>acc dayIdx.
                  case elementAt days dayIdx of
                    None \<Rightarrow> logRead days dayIdx acc
                  | Some day \<Rightarrow> (logRead days dayIdx acc)\<lparr>rects := rects acc @ [f dayIdx day]\<rparr>)
               st ds
         = \<lparr>rects = rects st @ map (\<lambda>d. f d (days ! d)) ds,
            reads = reads st @ map (\<lambda>d. \<lparr>readIndex = d, readLength = length days\<rparr>) ds\<rparr>"
  using assms by (induction ds arbitrary: st) (simp_all add: elementAt_def logRead_def)

lemma weekSquares_eq:
  "weekSquares l week weekIdx st =
     \<lparr>rects = rects st @ map (\<lambda>d. squareAt l weekIdx d (contributionDays week ! d))
                            [0..<length (contributionDays week)],
      reads = reads st @ map (\<lambda>d. \<lparr>readIndex = d, readLength = length (contributionDays week)\<rparr>)
                            [0..<length (contributionDays week)]\<rparr>"
  by (simp add: weekSquares_def Let_def foldl_days)

lemma foldl_weeks:
  assumes "\<forall>w\<in>set ws. w < length recentWeeks"
  shows "foldl (\<lambda>acc weekIdx.
              case acc of
                Inl e \<Rightarrow> Inl e
              | Inr st \<Rightarrow>
                  (case elementAt recentWeeks weekIdx of
                     None \<Rightarrow> Inl TypeError
                   | Some week \<Rightarrow>
                       Inr (weekSquares l week weekIdx (logRead recentWeeks weekIdx st))))
           (Inr st) ws
         = Inr \<lparr>rects = rects st @
                  concat (map (\<lambda>w. map (\<lambda>d. squareAt l w d (contributionDays (recentWeeks ! w) ! d))
                                  [0..<length (contributionDays (recentWeeks ! w))]) ws),
                reads = reads st @ concat (map (weekReads recentWeeks) ws)\<rparr>"
  using assms
  by (induction ws arbitrary: st)
     (simp_all add: elementAt_def weekSquares_eq logRead_def weekReads_def)

lemma weeksLoop_eq:
  "weeksLoop l recentWeeks =
     Inr \<lparr>rects = drawnSquares l recentWeeks, reads = expectedReads recentWeeks\<rparr>"
  unfolding weeksLoop_def drawnSquares_def expectedReads_def
  by (subst foldl_weeks) simp_all

lemma contributionSquares_eq:
  "contributionSquares selectedTheme svgWidth svgHeight isStatic (Some c) =
     Inr \<lparr>rects = drawnSquares
                    (graphLayout selectedTheme svgWidth svgHeight isStatic
                       (length (recentWeeksOf (weeks c))))
                    (recentWeeksOf (weeks c)),
          reads = expectedReads (recentWeeksOf (weeks c))\<rparr>"
  by (cases "weeks c = []")
     (simp_all add: contributionSquares_def Let_def weeksLoop_eq drawnSquares_def
        expectedReads_def recentWeeksOf_def)

lemma expectedReads_origin:
  assumes "a \<in> set (expectedReads ws)"
  shows "\<exists>w<length ws. a = \<lparr>readIndex = w, readLength = length ws\<rparr> \<or>
           (\<exists>d<length (contributionDays (ws ! w)).
              a = \<lparr>readIndex = d, readLength = length (contributionDays (ws ! w))\<rparr>)"
proof -
  from assms obtain xs where xs: "xs \<in> set (map (weekReads ws) [0..<length ws])" "a \<in> set xs"
    unfolding expectedReads_def set_concat by (elim UN_E)
  from xs(1) obtain w where w: "w < length ws" "xs = weekReads ws w"
    unfolding set_map by (elim imageE) simp
  from xs(2) have "a \<in> set (weekReads ws w)" by (simp only: w(2))
  then have "a = \<lparr>readIndex = w, readLength = length ws\<rparr> \<or>
      a \<in> (\<lambda>d. \<lparr>readIndex = d, readLength = length (contributionDays (ws ! w))\<rparr>) `
             set [0..<length (contributionDays (ws ! w))]"
    by (simp add: weekReads_def)
  then have "a = \<lparr>readIndex = w, readLength = length ws\<rparr> \<or>
     (\<exists>d<length (contributionDays (ws ! w)).
        a = \<lparr>readIndex = d, readLength = length (contributionDays (ws ! w))\<rparr>)"
    by (elim disjE imageE) simp_all
  with w(1) show ?thesis by (intro exI [where x = w]) simp
qed

lemma expectedReads_inBounds:
  assumes "a \<in> set (expectedReads ws)"
  shows "readIndex a < readLength a"
proof -
  from expectedReads_origin [OF assms] obtain w where w: "w < length ws"
    and a: "a = \<lparr>readIndex = w, readLength = length ws\<rparr> \<or>
           (\<exists>d<length (contributionDays (ws ! w)).
              a = \<lparr>readIndex = d, readLength = length (contributionDays (ws ! w))\<rparr>)"
    by (elim exE conjE)
  from a show ?thesis
  proof (elim disjE exE conjE)
    assume "a = \<lparr>readIndex = w, readLength = length ws\<rparr>"
    then show ?thesis using w by simp
  next
    fix d assume "d < length (contributionDays (ws ! w))"
      "a = \<lparr>readIndex = d, readLength = length (contributionDays (ws ! w))\<rparr>"
    then show ?thesis by simp
  qed
qed

lemma length_weekReads:
  "length (weekReads ws w) = Suc (length (contributionDays (ws ! w)))"
  by (simp add: weekReads_def)

lemma length_expectedReads_aux:
  "length (concat (map (weekReads ws) [0..<n]))
     = sum_list (map (\<lambda>w. Suc (length (contributionDays (ws ! w)))) [0..<n])"
  by (induction n) (simp_all add: length_weekReads)

lemma length_expectedReads:
  "length (expectedReads ws) = length ws + sum_list (map (\<lambda>w. length (contributionDays w)) ws)"
proof -
  have "map (\<lambda>w. Suc (length (contributionDays (ws ! w)))) [0..<length ws]
        = map (\<lambda>w. Suc (length (contributionDays w))) ws"
    by (simp add: map_equality_iff)
  moreover have "sum_list (map (\<lambda>w. Suc (length (contributionDays w))) ws)
        = length ws + sum_list (map (\<lambda>w. length (contributionDays w)) ws)"
    by (induction ws) simp_all
  ultimately show ?thesis
    unfolding expectedReads_def by (simp only: length_expectedReads_aux)
qed

lemma length_drawnSquares_aux:
  "length (concat (map (\<lambda>w. map (g w) [0..<length (contributionDays (ws ! w))]) [0..<n]))
     = sum_list (map (\<lambda>w. length (contributionDays (ws ! w))) [0..<n])"
  by (induction n) simp_all

lemma length_drawnSquares:
  "length (drawnSquares l ws) = sum_list (map (\<lambda>w. length (contributionDays w)) ws)"
proof -
  have "map (\<lambda>w. length (contributionDays (ws ! w))) [0..<length ws]
        = map (\<lambda>w. length (contributionDays w)) ws"
    by (simp add: map_equality_iff)
  then show ?thesis
    unfolding drawnSquares_def by (simp only: length_drawnSquares_aux)
qed

lemma drawnSquares_member:
  assumes "w < length ws" "d < length (contributionDays (ws ! w))"
  shows "squareAt l w d (contributionDays (ws ! w) ! d) \<in> set (drawnSquares l ws)"
proof -
  let ?row = "\<lambda>w. map (\<lambda>d. squareAt l w d (contributionDays (ws ! w) ! d))
                         [0..<length (contributionDays (ws ! w))]"
  have "squareAt l w d (contributionDays (ws ! w) ! d) \<in> set (?row w)"
    unfolding set_map using assms(2) by (intro image_eqI [where x = d]) simp_all
  moreover have "?row w \<in> set (map ?row [0..<length ws])"
    unfolding set_map using assms(1) by (intro image_eqI [where x = w]) simp_all
  ultimately show ?thesis
    unfolding drawnSquares_def set_concat by (rule UN_I [rotated])
qed

lemma drawnSquares_origin:
  assumes "r \<in> set (drawnSquares l ws)"
  shows "\<exists>w<length ws. \<exists>d<length (contributionDays (ws ! w)).
           r = squareAt l w d (contributionDays (ws ! w) ! d)"
proof -
  let ?row = "\<lambda>w. map (\<lambda>d. squareAt l w d (contributionDays (ws ! w) ! d))
                         [0..<length (contributionDays (ws ! w))]"
  from assms obtain xs where xs: "xs \<in> set (map ?row [0..<length ws])" "r \<in> set xs"
    unfolding drawnSquares_def set_concat by (elim UN_E)
  from xs(1) obtain w where w: "w < length ws" "xs = ?row w"
    unfolding set_map by (elim imageE) simp
  from xs(2) have "r \<in> set (?row w)" by (simp only: w(2))
  then obtain d where "d < length (contributionDays (ws ! w))"
      "r = squareAt l w d (contributionDays (ws ! w) ! d)"
    unfolding set_map by (elim imageE) simp
  with w(1) show ?thesis by blast
qed

lemma squareAt_example:
  "rectFill (squareAt (graphLayout github_dark 2560 1440 True 2) 1 2 (dayWith 4)) = ''#bfffd1''"
  "rectOpacity (squareAt (graphLayout github_dark 2560 1440 True 2) 1 2 (dayWith 4)) = []"
  "rectFill (squareAt (graphLayout github_dark 2560 1440 True 2) 1 2 (dayWith 0)) = ''#000000''"
  by (simp_all add: squareAt_def graphLayout_def squareColor_def dayWith_def Let_def)

text \<open>
  C7. Building the contribution squares never throws and performs no read outside an
  array: whatever the series, the result is a drawing and not an error, and every indexed
  read that the loops perform, of \<open>recentWeeks\<close> or of the days of a week, uses an index
  below the length of the array read. The reads are exactly one of every week and, of
  every week, one of every day it has. The rectangles are exactly one for every day that
  is present, in week order, so their number is the total number of days. A week with
  fewer than seven entries (three, say) gets rectangles for the entries it has and nothing
  for the missing days, which are not read either.
\<close>

theorem contribution_graph_short_weeks:
  "contributionSquares selectedTheme svgWidth svgHeight isStatic None =
     Inr \<lparr>rects = [], reads = []\<rparr> \<and>
   contributionSquares selectedTheme svgWidth svgHeight isStatic (Some c) =
     Inr \<lparr>rects = drawnSquares
                    (graphLayout selectedTheme svgWidth svgHeight isStatic
                       (length (recentWeeksOf (weeks c))))
                    (recentWeeksOf (weeks c)),
          reads = expectedReads (recentWeeksOf (weeks c))\<rparr> \<and>
   (\<exists>drawing. contributionSquares selectedTheme svgWidth svgHeight isStatic contribs = Inr drawing \<and>
      (\<forall>a\<in>set (reads drawing). readIndex a < readLength a)) \<and>
   length (expectedReads ws) = length ws + sum_list (map (\<lambda>w. length (contributionDays w)) ws) \<and>
   length (drawnSquares l ws) = sum_list (map (\<lambda>w. length (contributionDays w)) ws) \<and>
   (w < length ws \<and> d < length (contributionDays (ws ! w)) \<longrightarrow>
      squareAt l w d (contributionDays (ws ! w) ! d) \<in> set (drawnSquares l ws)) \<and>
   (r \<in> set (drawnSquares l ws) \<longrightarrow>
      (\<exists>w<length ws. \<exists>d<length (contributionDays (ws ! w)).
         r = squareAt l w d (contributionDays (ws ! w) ! d)))"
proof (intro conjI impI)
  show none: "contributionSquares selectedTheme svgWidth svgHeight isStatic None =
      Inr \<lparr>rects = [], reads = []\<rparr>"
    by (simp add: contributionSquares_def)
  show "contributionSquares selectedTheme svgWidth svgHeight isStatic (Some c) =
     Inr \<lparr>rects = drawnSquares
                    (graphLayout selectedTheme svgWidth svgHeight isStatic
                       (length (recentWeeksOf (weeks c))))
                    (recentWeeksOf (weeks c)),
          reads = expectedReads (recentWeeksOf (weeks c))\<rparr>"
    by (rule contributionSquares_eq)
  show "\<exists>drawing. contributionSquares selectedTheme svgWidth svgHeight isStatic contribs = Inr drawing \<and>
      (\<forall>a\<in>set (reads drawing). readIndex a < readLength a)"
  proof (cases contribs)
    case None
    then show ?thesis by (simp add: none)
  next
    case (Some c')
    have "\<forall>a\<in>set (expectedReads (recentWeeksOf (weeks c'))). readIndex a < readLength a"
      using expectedReads_inBounds by blast
    then show ?thesis
      unfolding Some contributionSquares_eq by simp
  qed
  show "length (expectedReads ws) = length ws + sum_list (map (\<lambda>w. length (contributionDays w)) ws)"
    by (rule length_expectedReads)
  show "length (drawnSquares l ws) = sum_list (map (\<lambda>w. length (contributionDays w)) ws)"
    by (rule length_drawnSquares)
  show "squareAt l w d (contributionDays (ws ! w) ! d) \<in> set (drawnSquares l ws)"
    if "w < length ws \<and> d < length (contributionDays (ws ! w))"
    using that by (intro drawnSquares_member) simp_all
  show "\<exists>w<length ws. \<exists>d<length (contributionDays (ws ! w)).
         r = squareAt l w d (contributionDays (ws ! w) ! d)"
    if "r \<in> set (drawnSquares l ws)"
    using that by (rule drawnSquares_origin)
qed

lemma recentWeeks_shortYear: "recentWeeksOf (weeks shortYear) = weeks shortYear"
  by (simp add: recentWeeksOf_def shortYear_def)

lemma expectedReads_shortYear:
  "expectedReads (weeks shortYear) =
     [\<lparr>readIndex = 0, readLength = 2\<rparr>,
      \<lparr>readIndex = 0, readLength = 7\<rparr>, \<lparr>readIndex = 1, readLength = 7\<rparr>,
      \<lparr>readIndex = 2, readLength = 7\<rparr>, \<lparr>readIndex = 3, readLength = 7\<rparr>,
      \<lparr>readIndex = 4, readLength = 7\<rparr>, \<lparr>readIndex = 5, readLength = 7\<rparr>,
      \<lparr>readIndex = 6, readLength = 7\<rparr>,
      \<lparr>readIndex = 1, readLength = 2\<rparr>,
      \<lparr>readIndex = 0, readLength = 3\<rparr>, \<lparr>readIndex = 1, readLength = 3\<rparr>,
      \<lparr>readIndex = 2, readLength = 3\<rparr>]"
  by (simp add: expectedReads_def weekReads_def shortYear_def upt_rec [of _ "numeral n" for n]
        upt_rec [of _ "Suc n" for n])

theorem contribution_graph_short_weeks_witness:
  "(\<exists>drawing. contributionSquares github_dark 2560 1440 True (Some shortYear) = Inr drawing \<and>
      rects drawing = drawnSquares (graphLayout github_dark 2560 1440 True 2) (weeks shortYear) \<and>
      reads drawing =
        [\<lparr>readIndex = 0, readLength = 2\<rparr>,
         \<lparr>readIndex = 0, readLength = 7\<rparr>, \<lparr>readIndex = 1, readLength = 7\<rparr>,
         \<lparr>readIndex = 2, readLength = 7\<rparr>, \<lparr>readIndex = 3, readLength = 7\<rparr>,
         \<lparr>readIndex = 4, readLength = 7\<rparr>, \<lparr>readIndex = 5, readLength = 7\<rparr>,
         \<lparr>readIndex = 6, readLength = 7\<rparr>,
         \<lparr>readIndex = 1, readLength = 2\<rparr>,
         \<lparr>readIndex = 0, readLength = 3\<rparr>, \<lparr>readIndex = 1, readLength = 3\<rparr>,
         \<lparr>readIndex = 2, readLength = 3\<rparr>]) \<and>
   length (drawnSquares (graphLayout github_dark 2560 1440 True 2) (weeks shortYear)) = 10 \<and>
   (1::nat) < length (weeks shortYear) \<and>
   (2::nat) < length (contributionDays (weeks shortYear ! 1)) \<and>
   length (contributionDays (weeks shortYear ! 1)) = 3 \<and>
   squareAt (graphLayout github_dark 2560 1440 True 2) 1 2 (dayWith 4)
     \<in> set (drawnSquares (graphLayout github_dark 2560 1440 True 2) (weeks shortYear)) \<and>
   (\<exists>w<length (weeks shortYear). \<exists>d<length (contributionDays (weeks shortYear ! w)).
      squareAt (graphLayout github_dark 2560 1440 True 2) 1 2 (dayWith 4) =
      squareAt (graphLayout github_dark 2560 1440 True 2) w d
        (contributionDays (weeks shortYear ! w) ! d))"
proof -
  let ?l = "graphLayout github_dark 2560 1440 True 2"
  note t = contribution_graph_short_weeks
     [of github_dark 2560 1440 True shortYear "Some shortYear" "weeks shortYear" ?l 1 2
         "squareAt ?l 1 2 (dayWith 4)"]
  have p: "1 < length (weeks shortYear) \<and> 2 < length (contributionDays (weeks shortYear ! 1))"
    by (simp add: shortYear_def)
  have d: "contributionDays (weeks shortYear ! 1) ! 2 = dayWith 4"
    by (simp add: shortYear_def)
  have sh: "length (weeks shortYear) = 2" "length (contributionDays (weeks shortYear ! 1)) = 3"
      "sum_list (map (\<lambda>w. length (contributionDays w)) (weeks shortYear)) = 10"
    by (simp_all add: shortYear_def)
  from t p
  have "squareAt ?l 1 2 (contributionDays (weeks shortYear ! 1) ! 2)
          \<in> set (drawnSquares ?l (weeks shortYear))"
    by blast
  then have mem: "squareAt ?l 1 2 (dayWith 4) \<in> set (drawnSquares ?l (weeks shortYear))"
    by (simp only: d)
  with t have ex: "\<exists>w<length (weeks shortYear). \<exists>d<length (contributionDays (weeks shortYear ! w)).
      squareAt ?l 1 2 (dayWith 4) = squareAt ?l w d (contributionDays (weeks shortYear ! w) ! d)"
    by blast
  from t have run: "contributionSquares github_dark 2560 1440 True (Some shortYear) =
     Inr \<lparr>rects = drawnSquares ?l (weeks shortYear), reads = expectedReads (weeks shortYear)\<rparr>"
    by (simp add: recentWeeks_shortYear sh(1))
  from t obtain drawing where dr:
      "contributionSquares github_dark 2560 1440 True (Some shortYear) = Inr drawing"
      "\<forall>a\<in>set (reads drawing). readIndex a < readLength a"
    by blast
  from dr(1) run have eq: "drawing =
      \<lparr>rects = drawnSquares ?l (weeks shortYear), reads = expectedReads (weeks shortYear)\<rparr>"
    by simp
  have first: "\<exists>drawing. contributionSquares github_dark 2560 1440 True (Some shortYear) = Inr drawing \<and>
      rects drawing = drawnSquares ?l (weeks shortYear) \<and>
      reads drawing =
        [\<lparr>readIndex = 0, readLength = 2\<rparr>,
         \<lparr>readIndex = 0, readLength = 7\<rparr>, \<lparr>readIndex = 1, readLength = 7\<rparr>,
         \<lparr>readIndex = 2, readLength = 7\<rparr>, \<lparr>readIndex = 3, readLength = 7\<rparr>,
         \<lparr>readIndex = 4, readLength = 7\<rparr>, \<lparr>readIndex = 5, readLength = 7\<rparr>,
         \<lparr>readIndex = 6, readLength = 7\<rparr>,
         \<lparr>readIndex = 1, readLength = 2\<rparr>,
         \<lparr>readIndex = 0, readLength = 3\<rparr>, \<lparr>readIndex = 1, readLength = 3\<rparr>,
         \<lparr>readIndex = 2, readLength = 3\<rparr>]"
    using dr eq expectedReads_shortYear by (intro exI [where x = drawing]) simp
  from t have len: "length (drawnSquares ?l (weeks shortYear)) = 10"
    by (simp add: sh(3))
  show ?thesis
    using first len p sh(2) mem ex by blast
qed

subsection \<open>Export sizes\<close>




subsection \<open>Avatar styles\<close>

lemma ArtType_UNIV: "(UNIV :: ArtType set) = {none, ascii, pixel, grayscale, color}"
proof -
  have "t \<in> {none, ascii, pixel, grayscale, color}" for t :: ArtType
    by (cases t) simp_all
  then show ?thesis by blast
qed

lemma clamp_near:
  fixes x v :: real
  assumes "0 \<le> v" "v \<le> 255" "\<bar>x - v\<bar> < 1 / 2"
  shows "\<bar>min 255 (max 0 x) - v\<bar> < 1 / 2"
proof -
  consider "x < 0" | "0 \<le> x \<and> x \<le> 255" | "255 < x" by linarith
  then show ?thesis
  proof cases
    case 1
    then have "min 255 (max 0 x) = 0" by simp
    then show ?thesis using assms 1 by linarith
  next
    case 2
    then have "min 255 (max 0 x) = x" by simp
    then show ?thesis using assms by simp
  next
    case 3
    then have "min 255 (max 0 x) = 255" by simp
    then show ?thesis using assms 3 by linarith
  qed
qed

lemma toUint8Clamp_gray:
  "toUint8Clamp (Some (luminosity (of_nat (unat (w :: 8 word))) (of_nat (unat w)) (of_nat (unat w))))
     = w"
proof (cases "unat w = 0")
  case True
  have "toUint8Clamp (Some (luminosity 0 0 0)) = 0"
    by (simp add: luminosity_black toUint8Clamp_def roundHalfEven_def)
  moreover have "w = 0" using True by (simp add: unat_eq_0)
  ultimately show ?thesis by simp
next
  case False
  define v :: number where "v = of_nat (unat w)"
  have "1 \<le> unat w" using False by simp
  then have "(of_nat 1 :: number) \<le> of_nat (unat w)" by (rule of_nat_mono)
  then have v1: "1 \<le> v" unfolding v_def of_nat_1 .
  have v0: "0 \<le> v" using v1 by simp
  have v2: "v \<le> 255" unfolding v_def by (rule unat8_bounds)
  have near: "\<bar>luminosity v v v - v\<bar> < 1 / 2"
    using v1 v2 by (rule luminosity_gray_near)
  have c: "\<bar>min 255 (max 0 (luminosity v v v)) - v\<bar> < 1 / 2"
    using v0 v2 near by (rule clamp_near)
  have "v = of_int (int (unat w))" unfolding v_def by (simp only: of_int_of_nat_eq)
  then have "\<bar>min 255 (max 0 (luminosity v v v)) - of_int (int (unat w))\<bar> < 1 / 2"
    using c by (simp only: )
  then have "roundHalfEven (min 255 (max 0 (luminosity v v v))) = int (unat w)"
    by (rule roundHalfEven_near)
  then have "toUint8Clamp (Some (luminosity v v v)) = of_int (int (unat w))"
    by (simp add: toUint8Clamp_def)
  also have "\<dots> = w" by simp
  finally show ?thesis unfolding v_def .
qed

lemma grayAt_gray:
  assumes "i + 2 < length data" "data ! (i + 1) = data ! i" "data ! (i + 2) = data ! i"
  shows "grayAt data i = data ! i"
  by (simp only: grayAt_complete [OF assms(1)] assms(2,3) toUint8Clamp_gray)

lemma grayscaleLoop_pixel:
  assumes "4 * k + 3 < length data"
  shows "grayscaleLoop 0 data ! (4 * k) = grayAt data (4 * k)"
        "grayscaleLoop 0 data ! (4 * k + 1) = grayAt data (4 * k)"
        "grayscaleLoop 0 data ! (4 * k + 2) = grayAt data (4 * k)"
        "grayscaleLoop 0 data ! (4 * k + 3) = data ! (4 * k + 3)"
proof -
  have z: "(0::nat) mod 4 = 0" by simp
  note inv = grayscaleLoop_inv [OF z, of data]
  have g: "grayscaleLoop 0 data ! (4 * k + c) = grayAt data (4 * k)" if "c < 3" for c
    using inv [THEN conjunct2, THEN conjunct2, rule_format, of "4 * k" c] that assms by simp
  show "grayscaleLoop 0 data ! (4 * k) = grayAt data (4 * k)"
    using g [of 0] by simp
  show "grayscaleLoop 0 data ! (4 * k + 1) = grayAt data (4 * k)"
    using g [of 1] by simp
  show "grayscaleLoop 0 data ! (4 * k + 2) = grayAt data (4 * k)"
    using g [of 2] by simp
  show "grayscaleLoop 0 data ! (4 * k + 3) = data ! (4 * k + 3)"
    using inv [THEN conjunct2, THEN conjunct1, rule_format, of "4 * k + 3"] assms by simp
qed

lemma grayscaleLoop_gray:
  assumes "length data = 4 * m"
    and "\<And>k. k < m \<Longrightarrow> data ! (4 * k + 1) = data ! (4 * k) \<and> data ! (4 * k + 2) = data ! (4 * k)"
  shows "grayscaleLoop 0 data = data"
proof (rule nth_equalityI)
  have z: "(0::nat) mod 4 = 0" by simp
  show len: "length (grayscaleLoop 0 data) = length data"
    using grayscaleLoop_inv [OF z, of data] by simp
  fix j assume "j < length (grayscaleLoop 0 data)"
  then have j: "j < 4 * m" using len assms(1) by simp
  define k where "k = j div 4"
  define c where "c = j mod 4"
  have jk: "j = 4 * k + c" by (simp add: k_def c_def)
  have c: "c < 4" by (simp add: c_def)
  have k: "k < m" using j jk by simp
  have r: "4 * k + 3 < length data" using k assms(1) by simp
  note p = grayscaleLoop_pixel [OF r]
  have eq: "data ! (4 * k + 1) = data ! (4 * k)" "data ! (4 * k + 2) = data ! (4 * k)"
    using assms(2) [OF k] by simp_all
  have "4 * k + 2 < length data" using r by simp
  then have g: "grayAt data (4 * k) = data ! (4 * k)"
    using eq by (intro grayAt_gray) simp_all
  consider "c = 0" | "c = 1" | "c = 2" | "c = 3" using c by linarith
  then show "grayscaleLoop 0 data ! j = data ! j"
  proof cases
    case 1 then show ?thesis using p(1) g jk by simp
  next
    case 2 then show ?thesis using p(2) g eq jk by simp
  next
    case 3 then show ?thesis using p(3) g eq jk by simp
  next
    case 4 then show ?thesis using p(4) jk by simp
  qed
qed

lemma length_rampImage: "length (rampImage w h) = 4 * (w * h)"
proof -
  have "length (rampImage w h) = w * h * 4"
    unfolding rampImage_def by (rule length_concat_uniform) simp
  then show ?thesis by simp
qed

lemma rampImage_nth:
  assumes "k < w * h" "c < 4"
  shows "rampImage w h ! (4 * k + c) = [of_nat k, of_nat k, of_nat k, 255] ! c"
proof -
  have "rampImage w h ! (k * 4 + c) = [of_nat k, of_nat k, of_nat k, 255] ! c"
    unfolding rampImage_def using assms by (intro nth_concat_uniform) simp_all
  then show ?thesis by (simp add: mult.commute)
qed

lemma grayscaleLoop_rampImage: "grayscaleLoop 0 (rampImage w h) = rampImage w h"
proof (rule grayscaleLoop_gray [where m = "w * h"])
  show "length (rampImage w h) = 4 * (w * h)" by (rule length_rampImage)
  fix k assume k: "k < w * h"
  have "rampImage w h ! (4 * k + 0) = of_nat k" "rampImage w h ! (4 * k + 1) = of_nat k"
    "rampImage w h ! (4 * k + 2) = of_nat k"
    using rampImage_nth [OF k, of 0] rampImage_nth [OF k, of 1] rampImage_nth [OF k, of 2]
    by simp_all
  then show "rampImage w h ! (4 * k + 1) = rampImage w h ! (4 * k) \<and>
      rampImage w h ! (4 * k + 2) = rampImage w h ! (4 * k)"
    by simp
qed

lemma channelValues_rampImage:
  assumes "256 \<le> w * h" "c < 3"
  shows "set (channelValues c (rampImage w h)) = UNIV"
proof -
  have "v \<in> set (channelValues c (rampImage w h))" for v :: "8 word"
  proof -
    have "unat v < 2 ^ LENGTH(8)" by (rule unsigned_less)
    then have u: "unat v < w * h" using assms(1) by simp
    have c4: "c < 4" using assms(2) by simp
    have "rampImage w h ! (4 * unat v + c) = [of_nat (unat v), of_nat (unat v), of_nat (unat v), 255] ! c"
      using u c4 by (rule rampImage_nth)
    also have "\<dots> = v"
    proof -
      consider "c = 0" | "c = 1" | "c = 2" using assms(2) by linarith
      then show ?thesis by cases simp_all
    qed
    finally have "v = (\<lambda>k. rampImage w h ! (4 * k + c)) (unat v)" by simp
    moreover have "unat v \<in> set [0..<length (rampImage w h) div 4]"
      using u by (simp add: length_rampImage)
    ultimately show ?thesis
      unfolding channelValues_def set_map by (rule image_eqI)
  qed
  then show ?thesis by blast
qed

lemma inj_bytesOf: "inj bytesOf"
proof -
  have "a = b" if "char_of (unat a) = char_of (unat b)" for a b :: "8 word"
  proof -
    have "(of_char (char_of (unat a)) :: nat) = of_char (char_of (unat b))"
      using that by (rule arg_cong)
    then have "unat a mod 256 = unat b mod 256"
      by (simp only: of_char_of)
    moreover have "unat a < 2 ^ LENGTH(8)" "unat b < 2 ^ LENGTH(8)"
      by (rule unsigned_less)+
    ultimately have "unat a = unat b" by simp
    then show ?thesis by (rule word_unat_eq_iff [THEN iffD2])
  qed
  then have "inj (\<lambda>v :: 8 word. char_of (unat v) :: char)"
    by (intro injI)
  then have "inj (map (\<lambda>v :: 8 word. char_of (unat v) :: char))"
    by (rule inj_mapI)
  moreover have "bytesOf = map (\<lambda>v :: 8 word. char_of (unat v) :: char)"
    by (intro ext) (simp add: bytesOf_def)
  ultimately show ?thesis by (simp only: )
qed

lemma length_asciiFromPixels:
  assumes "length pixels = asciiWidth * asciiHeight * 4"
  shows "length (asciiFromPixels pixels) = asciiHeight * (asciiWidth + 1)"
  unfolding asciiFromPixels_eq
  by (rule length_concat_uniform) (rule rowText_props(1) [OF assms])

lemma rampBrowser_art:
  "generateColorArt rampBrowser imageUrl = bytesOf (rampImage 256 256)"
  "generatePixelArt rampBrowser imageUrl = bytesOf (rampImage 64 64)"
  "generateGrayscaleArt rampBrowser imageUrl = bytesOf (grayscaleLoop 0 (rampImage 256 256))"
  "generateAsciiArt rampBrowser imageUrl = asciiFromPixels (rampImage 60 40)"
  by (simp_all add: generateColorArt_def generatePixelArt_def generateGrayscaleArt_def
        generateAsciiArt_def rampBrowser_def asciiWidth_def asciiHeight_def)

text \<open>
  C2, as stated, fails: the program has no transform that reduces the colour channels to
  a few levels. Take the avatar that is a ramp of grays. The colour transform and the
  pixel transform encode exactly the pixels drawn, and so does the grayscale transform,
  which leaves gray pixels as they are: in the encoded image every one of the 256 levels
  occurs in the red, the green and the blue channel, and the encoding tells any two
  buffers apart. The fourth transform returns no image but a text of 40 lines of 60
  characters and a line feed. Nor is \<open>cartoon\<close> an option of the avatar style selector or
  a value of the art type.
\<close>

theorem no_cartoon_style:
  "generateColorArt rampBrowser octocatAvatar = bytesOf (rampImage 256 256) \<and>
   generateGrayscaleArt rampBrowser octocatAvatar = bytesOf (rampImage 256 256) \<and>
   generatePixelArt rampBrowser octocatAvatar = bytesOf (rampImage 64 64) \<and>
   inj bytesOf \<and>
   set (channelValues 0 (rampImage 256 256)) = UNIV \<and>
   set (channelValues 1 (rampImage 256 256)) = UNIV \<and>
   set (channelValues 2 (rampImage 256 256)) = UNIV \<and>
   set (channelValues 0 (rampImage 64 64)) = UNIV \<and>
   set (channelValues 1 (rampImage 64 64)) = UNIV \<and>
   set (channelValues 2 (rampImage 64 64)) = UNIV \<and>
   Finite_Set.card (UNIV :: 8 word set) = 256 \<and>
   generateAsciiArt rampBrowser octocatAvatar = asciiFromPixels (rampImage 60 40) \<and>
   length (asciiFromPixels (rampImage 60 40)) = 40 * 61 \<and>
   ''cartoon'' \<notin> set (map fst avatarStyleOptions) \<and>
   ''cartoon'' \<notin> set (map artTypeValue [none, ascii, pixel, grayscale, color])"
proof -
  have big: "(256::nat) \<le> 256 * 256" "(256::nat) \<le> 64 * 64" by simp_all
  have "length (rampImage 60 40) = asciiWidth * asciiHeight * 4"
    by (simp add: length_rampImage asciiWidth_def asciiHeight_def)
  then have "length (asciiFromPixels (rampImage 60 40)) = asciiHeight * (asciiWidth + 1)"
    by (rule length_asciiFromPixels)
  then have len: "length (asciiFromPixels (rampImage 60 40)) = 40 * 61"
    by (simp add: asciiWidth_def asciiHeight_def)
  have names: "''cartoon'' \<notin> set (map fst avatarStyleOptions)"
    "''cartoon'' \<notin> set (map artTypeValue [none, ascii, pixel, grayscale, color])"
    by (simp_all add: avatarStyleOptions_def artTypeValue_def)
  have cardw: "Finite_Set.card (UNIV :: 8 word set) = 256"
    by (simp add: card_word)
  show ?thesis
    by (intro conjI rampBrowser_art(1,2,4) inj_bytesOf len names cardw
          channelValues_rampImage big)
       (simp_all add: rampBrowser_art(3) grayscaleLoop_rampImage)
qed

text \<open>
  C2, amended. The avatar styles on offer are exactly none, grayscale, color, ASCII art
  and pixel art, the values of the art type, and whatever is selected, the art of the
  banner is the result of the ASCII, the pixel, the grayscale or the colour transform (or
  there is none). None of the four is a posterize or cartoon transform. When the avatar
  loads, the colour transform and the pixel transform encode the canvas as the avatar was
  drawn onto it, 256 by 256 and 64 by 64, with no change to any pixel. The grayscale
  transform encodes the canvas after its loop, which gives each pixel the rounded
  luminosity of that same pixel in red, green and blue and keeps its alpha; a pixel that
  is gray already, of any of the 256 levels, stays as it is. The ASCII transform returns
  the text made from the 60 by 40 canvas.
\<close>

theorem avatar_styles_offered:
  "set (map fst avatarStyleOptions) = range artTypeValue \<and>
   map fst avatarStyleOptions = [''none'', ''grayscale'', ''color'', ''ascii'', ''pixel''] \<and>
   ''cartoon'' \<notin> range artTypeValue \<and>
   set (artColumns artType (loadArt env user))
     \<subseteq> {AsciiPre (generateAsciiArt env (avatar_url user)),
         PixelImg (generatePixelArt env (avatar_url user)),
         GrayscaleImg (generateGrayscaleArt env (avatar_url user)),
         ColorImg (generateColorArt env (avatar_url user))} \<and>
   artColumns none (loadArt env user) = [] \<and>
   (loadImage env (proxyUrl env imageUrl ''256'') = Some img \<and> getContext2d env \<longrightarrow>
      generateColorArt env imageUrl = toDataURL env 256 256 (drawImage env img 256 256 True) \<and>
      generateGrayscaleArt env imageUrl =
        toDataURL env 256 256 (grayscaleLoop 0 (drawImage env img 256 256 True))) \<and>
   (loadImage env (proxyUrl env imageUrl ''200'') = Some img \<and> getContext2d env \<longrightarrow>
      generatePixelArt env imageUrl = toDataURL env 64 64 (drawImage env img 64 64 False) \<and>
      generateAsciiArt env imageUrl = asciiFromPixels (drawImage env img 60 40 True)) \<and>
   (4 * k + 3 < length data \<longrightarrow>
      grayscaleLoop 0 data ! (4 * k) = grayAt data (4 * k) \<and>
      grayscaleLoop 0 data ! (4 * k + 1) = grayAt data (4 * k) \<and>
      grayscaleLoop 0 data ! (4 * k + 2) = grayAt data (4 * k) \<and>
      grayscaleLoop 0 data ! (4 * k + 3) = data ! (4 * k + 3) \<and>
      grayAt data (4 * k) =
        toUint8Clamp (Some (luminosity (of_nat (unat (data ! (4 * k))))
                                       (of_nat (unat (data ! (4 * k + 1))))
                                       (of_nat (unat (data ! (4 * k + 2))))))) \<and>
   (4 * k + 3 < length data \<and> data ! (4 * k + 1) = data ! (4 * k) \<and>
    data ! (4 * k + 2) = data ! (4 * k) \<longrightarrow>
      grayscaleLoop 0 data ! (4 * k) = data ! (4 * k) \<and>
      grayscaleLoop 0 data ! (4 * k + 1) = data ! (4 * k + 1) \<and>
      grayscaleLoop 0 data ! (4 * k + 2) = data ! (4 * k + 2) \<and>
      grayscaleLoop 0 data ! (4 * k + 3) = data ! (4 * k + 3))"
proof (intro conjI impI)
  have r: "range artTypeValue = {''none'', ''ascii'', ''pixel'', ''grayscale'', ''color''}"
    by (simp add: ArtType_UNIV artTypeValue_def)
  show "set (map fst avatarStyleOptions) = range artTypeValue"
    unfolding r by (auto simp: avatarStyleOptions_def)
  show "map fst avatarStyleOptions = [''none'', ''grayscale'', ''color'', ''ascii'', ''pixel'']"
    by (simp add: avatarStyleOptions_def)
  show "''cartoon'' \<notin> range artTypeValue"
    unfolding r by simp
  show "set (artColumns artType (loadArt env user))
     \<subseteq> {AsciiPre (generateAsciiArt env (avatar_url user)),
         PixelImg (generatePixelArt env (avatar_url user)),
         GrayscaleImg (generateGrayscaleArt env (avatar_url user)),
         ColorImg (generateColorArt env (avatar_url user))}"
    by (cases artType) (auto simp: artColumns_def loadArt_def)
  show "artColumns none (loadArt env user) = []"
    by (simp add: artColumns_def)
next
  assume "loadImage env (proxyUrl env imageUrl ''256'') = Some img \<and> getContext2d env"
  then show "generateColorArt env imageUrl =
      toDataURL env 256 256 (drawImage env img 256 256 True)"
    and "generateGrayscaleArt env imageUrl =
      toDataURL env 256 256 (grayscaleLoop 0 (drawImage env img 256 256 True))"
    by (simp_all add: generateColorArt_def generateGrayscaleArt_def)
next
  assume "loadImage env (proxyUrl env imageUrl ''200'') = Some img \<and> getContext2d env"
  then show "generatePixelArt env imageUrl =
      toDataURL env 64 64 (drawImage env img 64 64 False)"
    and "generateAsciiArt env imageUrl = asciiFromPixels (drawImage env img 60 40 True)"
    by (simp_all add: generatePixelArt_def generateAsciiArt_def asciiWidth_def asciiHeight_def)
next
  assume r: "4 * k + 3 < length data"
  show "grayscaleLoop 0 data ! (4 * k) = grayAt data (4 * k)"
    "grayscaleLoop 0 data ! (4 * k + 1) = grayAt data (4 * k)"
    "grayscaleLoop 0 data ! (4 * k + 2) = grayAt data (4 * k)"
    "grayscaleLoop 0 data ! (4 * k + 3) = data ! (4 * k + 3)"
    by (rule grayscaleLoop_pixel [OF r])+
  have "4 * k + 2 < length data" using r by simp
  then show "grayAt data (4 * k) =
        toUint8Clamp (Some (luminosity (of_nat (unat (data ! (4 * k))))
                                       (of_nat (unat (data ! (4 * k + 1))))
                                       (of_nat (unat (data ! (4 * k + 2))))))"
    by (rule grayAt_complete)
next
  assume a: "4 * k + 3 < length data \<and> data ! (4 * k + 1) = data ! (4 * k) \<and>
    data ! (4 * k + 2) = data ! (4 * k)"
  then have r: "4 * k + 3 < length data" by simp
  have "4 * k + 2 < length data" using r by simp
  then have g: "grayAt data (4 * k) = data ! (4 * k)"
    using a by (intro grayAt_gray) simp_all
  note p = grayscaleLoop_pixel [OF r]
  show "grayscaleLoop 0 data ! (4 * k) = data ! (4 * k)"
    by (simp only: p(1) g)
  show "grayscaleLoop 0 data ! (4 * k + 1) = data ! (4 * k + 1)"
    using a by (simp only: p(2) g)
  show "grayscaleLoop 0 data ! (4 * k + 2) = data ! (4 * k + 2)"
    using a by (simp only: p(3) g)
  show "grayscaleLoop 0 data ! (4 * k + 3) = data ! (4 * k + 3)"
    by (rule p(4))
qed

theorem avatar_styles_offered_witness:
  "set (map fst avatarStyleOptions) = range artTypeValue \<and>
   ''cartoon'' \<notin> range artTypeValue \<and>
   artColumns grayscale (loadArt (stillBrowser twoPixels) (profileOf 1))
     = [GrayscaleImg ''data:image/png;base64,''] \<and>
   loadImage (stillBrowser twoPixels) (proxyUrl (stillBrowser twoPixels) octocatAvatar ''256'')
     = Some () \<and>
   loadImage (stillBrowser twoPixels) (proxyUrl (stillBrowser twoPixels) octocatAvatar ''200'')
     = Some () \<and>
   getContext2d (stillBrowser twoPixels) \<and>
   generateColorArt (stillBrowser twoPixels) octocatAvatar
     = toDataURL (stillBrowser twoPixels) 256 256 twoPixels \<and>
   generateGrayscaleArt (stillBrowser twoPixels) octocatAvatar
     = toDataURL (stillBrowser twoPixels) 256 256 (grayscaleLoop 0 twoPixels) \<and>
   generatePixelArt (stillBrowser twoPixels) octocatAvatar
     = toDataURL (stillBrowser twoPixels) 64 64 twoPixels \<and>
   generateAsciiArt (stillBrowser twoPixels) octocatAvatar = asciiFromPixels twoPixels \<and>
   4 * 1 + 3 < length twoPixels \<and>
   twoPixels ! (4 * 1 + 1) = twoPixels ! (4 * 1) \<and>
   twoPixels ! (4 * 1 + 2) = twoPixels ! (4 * 1) \<and>
   grayscaleLoop 0 twoPixels ! 4 = 255 \<and> grayscaleLoop 0 twoPixels ! 5 = 255 \<and>
   grayscaleLoop 0 twoPixels ! 6 = 255 \<and> grayscaleLoop 0 twoPixels ! 7 = 0 \<and>
   grayAt twoPixels 4 = 255"
proof -
  note t = avatar_styles_offered
     [of grayscale "stillBrowser twoPixels" "profileOf 1" octocatAvatar "()" 1 twoPixels]
  have col: "artColumns grayscale (loadArt (stillBrowser twoPixels) (profileOf 1))
     = [GrayscaleImg ''data:image/png;base64,'']"
    by (simp add: artColumns_def loadArt_def generateGrayscaleArt_def stillBrowser_def)
  have env: "loadImage (stillBrowser twoPixels) (proxyUrl (stillBrowser twoPixels) octocatAvatar ''256'')
     = Some ()"
    "loadImage (stillBrowser twoPixels) (proxyUrl (stillBrowser twoPixels) octocatAvatar ''200'')
     = Some ()"
    "getContext2d (stillBrowser twoPixels)"
    by (simp_all add: stillBrowser_def)
  have dr: "drawImage (stillBrowser twoPixels) () w h s = twoPixels" for w h s
    by (simp add: stillBrowser_def)
  have px: "4 * 1 + 3 < length twoPixels" "twoPixels ! (4 * 1 + 1) = twoPixels ! (4 * 1)"
    "twoPixels ! (4 * 1 + 2) = twoPixels ! (4 * 1)"
    by (simp_all add: twoPixels_def)
  have v: "twoPixels ! 4 = 255" "twoPixels ! 5 = 255" "twoPixels ! 6 = 255" "twoPixels ! 7 = 0"
    by (simp_all add: twoPixels_def)
  from t env have art:
    "generateColorArt (stillBrowser twoPixels) octocatAvatar
       = toDataURL (stillBrowser twoPixels) 256 256 twoPixels"
    "generateGrayscaleArt (stillBrowser twoPixels) octocatAvatar
       = toDataURL (stillBrowser twoPixels) 256 256 (grayscaleLoop 0 twoPixels)"
    "generatePixelArt (stillBrowser twoPixels) octocatAvatar
       = toDataURL (stillBrowser twoPixels) 64 64 twoPixels"
    "generateAsciiArt (stillBrowser twoPixels) octocatAvatar = asciiFromPixels twoPixels"
    by (simp_all add: dr)
  from t px have kept:
    "grayscaleLoop 0 twoPixels ! (4 * 1) = twoPixels ! (4 * 1)"
    "grayscaleLoop 0 twoPixels ! (4 * 1 + 1) = twoPixels ! (4 * 1 + 1)"
    "grayscaleLoop 0 twoPixels ! (4 * 1 + 2) = twoPixels ! (4 * 1 + 2)"
    "grayscaleLoop 0 twoPixels ! (4 * 1 + 3) = twoPixels ! (4 * 1 + 3)"
    by blast+
  from t px have "grayscaleLoop 0 twoPixels ! (4 * 1) = grayAt twoPixels (4 * 1)"
    by blast
  with kept(1) have g: "grayAt twoPixels 4 = 255" by (simp add: v)
  from t have names: "set (map fst avatarStyleOptions) = range artTypeValue"
    "''cartoon'' \<notin> range artTypeValue"
    by blast+
  show ?thesis
    using names col env art px kept g by (simp add: v)
qed

end
